theory Spec2Isabelle
  imports Complex_Main "HOL-Library.Sublist"
begin

section \<open>Strings\<close>

text \<open>
  A JavaScript string is a sequence of UTF-16 code units. The model covers the strings
  whose code units are below 256 (Basic Latin and Latin-1), one \<^typ>\<open>char\<close> per
  code unit. On that range \<open>String.prototype.toLowerCase\<close> maps \<open>A..Z\<close> and the
  upper-case letters U+00C0..U+00DE (without the multiplication sign U+00D7) to the code
  unit 32 above and leaves every other code unit alone; it never changes the length.
\<close>

definition lowerChar :: "char \<Rightarrow> char" where
  "lowerChar c =
     (let n = (of_char c :: nat)
      in if (65 \<le> n \<and> n \<le> 90) \<or> (192 \<le> n \<and> n \<le> 222 \<and> n \<noteq> 215)
         then char_of (n + 32) else c)"

definition toLowerCase :: "string \<Rightarrow> string" where
  "toLowerCase s = map lowerChar s"

text \<open>\<open>s.startsWith(t)\<close>, \<open>s.endsWith(t)\<close>, \<open>s.includes(t)\<close> (named \<open>str_includes\<close>) and \<open>s.substring(a, b)\<close>
  for \<open>0 \<le> a \<le> b\<close>.\<close>

definition startsWith :: "string \<Rightarrow> string \<Rightarrow> bool" where
  "startsWith s t = (take (length t) s = t)"

definition endsWith :: "string \<Rightarrow> string \<Rightarrow> bool" where
  "endsWith s t = (length t \<le> length s \<and> drop (length s - length t) s = t)"

fun str_includes :: "string \<Rightarrow> string \<Rightarrow> bool" where
  "str_includes [] t = (t = [])"
| "str_includes (c # s) t = (startsWith (c # s) t \<or> str_includes s t)"

definition substring :: "string \<Rightarrow> nat \<Rightarrow> nat \<Rightarrow> string" where
  "substring s a b = take (b - a) (drop a s)"

section \<open>Pattern matching (src/input/filter.ts)\<close>

definition matchesSenderPattern :: "string \<Rightarrow> string \<Rightarrow> bool" where
  "matchesSenderPattern address pattern =
     (let addr = toLowerCase address;
          pat = toLowerCase pattern
      in if startsWith pat ''*''
         then endsWith addr (substring pat 1 (length pat))
         else addr = pat)"

definition matchesSenderList :: "string \<Rightarrow> string list \<Rightarrow> bool" where
  "matchesSenderList address patterns = list_ex (\<lambda>p. matchesSenderPattern address p) patterns"

definition containsKeyword :: "string \<Rightarrow> string list \<Rightarrow> bool" where
  "containsKeyword text keywords =
     (let lower = toLowerCase text
      in list_ex (\<lambda>kw. str_includes lower (toLowerCase kw)) keywords)"

definition countKeywordMatches :: "string \<Rightarrow> string list \<Rightarrow> nat" where
  "countKeywordMatches text keywords =
     (let lower = toLowerCase text
      in length (filter (\<lambda>kw. str_includes lower (toLowerCase kw)) keywords))"

section \<open>Rules (src/utils/config.ts)\<close>

text \<open>
  \<open>DefaultRules\<close> and \<open>UserRules\<close> with the nested objects \<open>senders\<close> and
  \<open>keywords\<close> flattened into fields. \<open>categories\<close> is a JavaScript object; it is kept as
  the list of its entries in \<open>Object.entries\<close> order. The two ISO-8601 time stamps of
  \<open>UserRules\<close> are kept as the instants they denote, in milliseconds.
\<close>

record CategoryHints =
  senderHints :: "string list"
  keywordHints :: "string list"

record DefaultRules =
  d_version :: int
  d_senders_financial :: "string list"
  d_senders_ignore :: "string list"
  d_keywords_subject :: "string list"
  d_keywords_body :: "string list"
  d_categories :: "(string \<times> CategoryHints) list"

record UserRules =
  u_version :: int
  generated_at :: int
  last_refreshed_at :: int
  u_senders_financial :: "string list"
  u_senders_ignore :: "string list"
  u_senders_pending_review :: "string list"
  u_keywords_subject :: "string list"
  u_keywords_body :: "string list"

section \<open>Storage (src/store/database.ts)\<close>

record EmailRow =
  email_row_id :: string
  thread_id :: "string option"
  sender :: string
  sender_name :: "string option"
  subject :: string
  body_text :: "string option"
  received_at :: int
  fetched_at :: int
  labels :: "string option"

record ClassificationRow =
  email_id :: string
  is_financial :: int
  category :: "string option"
  confidence :: real
  classified_by :: string
  classified_at :: int

record BriefingRow =
  b_id :: nat
  b_generated_at :: int
  b_period_start :: int
  b_period_end :: int
  b_email_count :: nat
  b_content :: string
  b_model_used :: "string option"
  b_tokens_used :: int
  delivered :: int
  delivered_via :: "string option"
  delivered_at :: "int option"

datatype trigger = scheduled | manual | catchup

record PipelineRunRow =
  run_id :: nat
  started_at :: int
  finished_at :: "int option"
  status :: string
  run_trigger :: trigger
  period_start :: "int option"
  period_end :: "int option"
  emails_fetched :: nat
  emails_classified :: nat
  emails_financial :: nat
  tokens_used :: int
  briefing_id :: "nat option"
  error :: "string option"

text \<open>
  The state a run works on: the four tables the modelled code reads and writes, and the
  clock. \<open>classifications\<close> has \<open>email_id\<close> as its primary key and is a map from it.
  \<open>Date.now()\<close> is the reading number \<open>ticks\<close> of the environment's clock \<open>wall\<close>;
  every reading advances \<open>ticks\<close>, nothing writes \<open>wall\<close>.
\<close>

record world =
  emails :: "EmailRow list"
  classifications :: "string \<rightharpoonup> ClassificationRow"
  briefings :: "BriefingRow list"
  pipeline_runs :: "PipelineRunRow list"
  wall :: "nat \<Rightarrow> int"
  ticks :: nat

definition Date_now :: "world \<Rightarrow> int \<times> world" where
  "Date_now w = (wall w (ticks w), w\<lparr>ticks := Suc (ticks w)\<rparr>)"

text \<open>\<open>SELECT * FROM emails WHERE id IN (...) ORDER BY received_at DESC\<close>\<close>

definition getEmailsByIds :: "world \<Rightarrow> string list \<Rightarrow> EmailRow list" where
  "getEmailsByIds w ids =
     (if length ids = 0 then []
      else sort_key (\<lambda>e. - received_at e) (filter (\<lambda>e. email_row_id e \<in> set ids) (emails w)))"

text \<open>\<open>INSERT OR REPLACE INTO classifications\<close>: the row replaces the one with its key.\<close>

definition insertClassification :: "ClassificationRow \<Rightarrow> world \<Rightarrow> world" where
  "insertClassification c w = w\<lparr>classifications := (classifications w)(email_id c \<mapsto> c)\<rparr>"

definition getClassification :: "world \<Rightarrow> string \<Rightarrow> ClassificationRow option" where
  "getClassification w emailId = classifications w emailId"

text \<open>
  The schema declares \<open>classifications.email_id REFERENCES emails(id)\<close> and the database
  is opened with \<open>foreign_keys = ON\<close>: every classification belongs to a stored email.
\<close>

definition foreign_keys_ok :: "world \<Rightarrow> bool" where
  "foreign_keys_ok w = (\<forall>k \<in> dom (classifications w). k \<in> email_row_id ` set (emails w))"

section \<open>Category detection and daily classification (src/input/filter.ts)\<close>

definition detectCategory :: "string \<Rightarrow> string \<Rightarrow> (string \<times> CategoryHints) list \<Rightarrow> string option" where
  "detectCategory sendr subj categories =
     (let senderLower = toLowerCase sendr;
          subjectLower = toLowerCase subj
      in case find (\<lambda>(cat, hints).
                 list_ex (\<lambda>h. str_includes senderLower (toLowerCase h)) (senderHints hints) \<or>
                 list_ex (\<lambda>h. str_includes subjectLower (toLowerCase h)) (keywordHints hints))
               categories of
           Some (cat, hints) \<Rightarrow> Some cat
         | None \<Rightarrow> Some ''other_financial'')"

record ClassifyResult =
  total :: nat
  financialCount :: nat
  financialEmailIds :: "string list"
  tokensUsed :: nat

text \<open>The four merged rule lists: the default list followed by the user's, if any.\<close>

definition financialSenders :: "DefaultRules \<Rightarrow> UserRules option \<Rightarrow> string list" where
  "financialSenders defaultRules userRules =
     d_senders_financial defaultRules @ (case userRules of None \<Rightarrow> [] | Some u \<Rightarrow> u_senders_financial u)"

definition ignoreSenders :: "DefaultRules \<Rightarrow> UserRules option \<Rightarrow> string list" where
  "ignoreSenders defaultRules userRules =
     d_senders_ignore defaultRules @ (case userRules of None \<Rightarrow> [] | Some u \<Rightarrow> u_senders_ignore u)"

definition subjectKeywords :: "DefaultRules \<Rightarrow> UserRules option \<Rightarrow> string list" where
  "subjectKeywords defaultRules userRules =
     d_keywords_subject defaultRules @ (case userRules of None \<Rightarrow> [] | Some u \<Rightarrow> u_keywords_subject u)"

definition bodyKeywords :: "DefaultRules \<Rightarrow> UserRules option \<Rightarrow> string list" where
  "bodyKeywords defaultRules userRules =
     d_keywords_body defaultRules @ (case userRules of None \<Rightarrow> [] | Some u \<Rightarrow> u_keywords_body u)"

text \<open>
  One pass of the \<open>for (const emailId of emailIds)\<close> loop of \<open>classifyEmails\<close>, on the
  result under construction and the state. \<open>if (email.body_text)\<close> holds for a body that
  is neither \<open>null\<close> nor the empty string.
\<close>

definition classifyStep ::
  "DefaultRules \<Rightarrow> UserRules option \<Rightarrow> string \<Rightarrow> ClassifyResult \<times> world \<Rightarrow> ClassifyResult \<times> world" where
  "classifyStep defaultRules userRules emailId rw =
     (let result = fst rw; w = snd rw
      in case getClassification w emailId of
           Some existing \<Rightarrow>
             (let result = result\<lparr>total := total result + 1\<rparr>
              in if is_financial existing \<noteq> 0
                 then (result\<lparr>financialCount := financialCount result + 1,
                               financialEmailIds := financialEmailIds result @ [emailId]\<rparr>, w)
                 else (result, w))
         | None \<Rightarrow>
             (case getEmailsByIds w [emailId] of
                [] \<Rightarrow> (result, w)
              | email # others \<Rightarrow>
                  if matchesSenderList (sender email) (ignoreSenders defaultRules userRules) then
                    (let (now, w) = Date_now w;
                         w = insertClassification
                               \<lparr>email_id = emailId, is_financial = 0, category = None,
                                confidence = 1.0, classified_by = ''rules_ignore'',
                                classified_at = now\<rparr> w
                     in (result\<lparr>total := total result + 1\<rparr>, w))
                  else if matchesSenderList (sender email) (financialSenders defaultRules userRules) then
                    (let cat = detectCategory (sender email) (subject email) (d_categories defaultRules);
                         (now, w) = Date_now w;
                         w = insertClassification
                               \<lparr>email_id = emailId, is_financial = 1, category = cat,
                                confidence = 1.0, classified_by = ''rules_sender'',
                                classified_at = now\<rparr> w
                     in (result\<lparr>total := total result + 1,
                                financialCount := financialCount result + 1,
                                financialEmailIds := financialEmailIds result @ [emailId]\<rparr>, w))
                  else if containsKeyword (subject email) (subjectKeywords defaultRules userRules) then
                    (let cat = detectCategory (sender email) (subject email) (d_categories defaultRules);
                         (now, w) = Date_now w;
                         w = insertClassification
                               \<lparr>email_id = emailId, is_financial = 1, category = cat,
                                confidence = 0.85, classified_by = ''rules_keyword'',
                                classified_at = now\<rparr> w
                     in (result\<lparr>total := total result + 1,
                                financialCount := financialCount result + 1,
                                financialEmailIds := financialEmailIds result @ [emailId]\<rparr>, w))
                  else if (case body_text email of
                             None \<Rightarrow> False
                           | Some body \<Rightarrow>
                               body \<noteq> [] \<and>
                               (let bodyText = substring body 0 1500;
                                    matchCount = countKeywordMatches bodyText
                                                   (bodyKeywords defaultRules userRules)
                                in matchCount \<ge> 2)) then
                    (let cat = detectCategory (sender email) (subject email) (d_categories defaultRules);
                         (now, w) = Date_now w;
                         w = insertClassification
                               \<lparr>email_id = emailId, is_financial = 1, category = cat,
                                confidence = 0.7, classified_by = ''rules_keyword'',
                                classified_at = now\<rparr> w
                     in (result\<lparr>total := total result + 1,
                                financialCount := financialCount result + 1,
                                financialEmailIds := financialEmailIds result @ [emailId]\<rparr>, w))
                  else
                    (let (now, w) = Date_now w;
                         w = insertClassification
                               \<lparr>email_id = emailId, is_financial = 0, category = None,
                                confidence = 0.8, classified_by = ''rules_no_match'',
                                classified_at = now\<rparr> w
                     in (result\<lparr>total := total result + 1\<rparr>, w))))"

fun classifyLoop ::
  "DefaultRules \<Rightarrow> UserRules option \<Rightarrow> string list \<Rightarrow> ClassifyResult \<times> world \<Rightarrow> ClassifyResult \<times> world" where
  "classifyLoop defaultRules userRules [] rw = rw"
| "classifyLoop defaultRules userRules (emailId # rest) rw =
     classifyLoop defaultRules userRules rest (classifyStep defaultRules userRules emailId rw)"

definition classifyEmails ::
  "DefaultRules \<Rightarrow> UserRules option \<Rightarrow> string list \<Rightarrow> world \<Rightarrow> ClassifyResult \<times> world" where
  "classifyEmails defaultRules userRules emailIds w =
     classifyLoop defaultRules userRules emailIds
       (\<lparr>total = 0, financialCount = 0, financialEmailIds = [], tokensUsed = 0\<rparr>, w)"

text \<open>
  What the pass writes for an email without a stored classification: the chain of checks
  1 to 4 and the no-match case of \<open>classifyStep\<close>, as the columns \<open>is_financial\<close>,
  \<open>category\<close>, \<open>confidence\<close> and \<open>classified_by\<close> of the row written; \<open>written_row\<close> adds
  the key and the time stamp.
\<close>

definition decide :: "DefaultRules \<Rightarrow> UserRules option \<Rightarrow> EmailRow \<Rightarrow> int \<times> string option \<times> real \<times> string" where
  "decide defaultRules userRules email =
     (if matchesSenderList (sender email) (ignoreSenders defaultRules userRules) then
        (0, None, 1.0, ''rules_ignore'')
      else if matchesSenderList (sender email) (financialSenders defaultRules userRules) then
        (1, detectCategory (sender email) (subject email) (d_categories defaultRules), 1.0,
         ''rules_sender'')
      else if containsKeyword (subject email) (subjectKeywords defaultRules userRules) then
        (1, detectCategory (sender email) (subject email) (d_categories defaultRules), 0.85,
         ''rules_keyword'')
      else if (case body_text email of
                 None \<Rightarrow> False
               | Some body \<Rightarrow>
                   body \<noteq> [] \<and>
                   countKeywordMatches (substring body 0 1500)
                     (bodyKeywords defaultRules userRules) \<ge> 2) then
        (1, detectCategory (sender email) (subject email) (d_categories defaultRules), 0.7,
         ''rules_keyword'')
      else (0, None, 0.8, ''rules_no_match''))"

definition written_row :: "string \<Rightarrow> int \<times> string option \<times> real \<times> string \<Rightarrow> int \<Rightarrow> ClassificationRow" where
  "written_row emailId d t =
     \<lparr>email_id = emailId, is_financial = fst d, category = fst (snd d),
      confidence = fst (snd (snd d)), classified_by = snd (snd (snd d)), classified_at = t\<rparr>"

subsection \<open>The tiers as the specification lists them\<close>

text \<open>
  The specification numbers five tiers: ignore-sender, relevant-sender, subject keyword,
  body keyword, no match. \<open>tier_conditions\<close> lists, in that order, whether each one
  matches an email; the last always does. \<open>first_match\<close> is the position (from 0) of the
  first tier that matches, \<open>tier_verdict\<close> the relevance and confidence the specification
  gives a tier, and \<open>tier_tag\<close> the \<open>classified_by\<close> value the code writes for it.
\<close>

definition tier_conditions :: "DefaultRules \<Rightarrow> UserRules option \<Rightarrow> EmailRow \<Rightarrow> bool list" where
  "tier_conditions defaultRules userRules email =
     [matchesSenderList (sender email) (ignoreSenders defaultRules userRules),
      matchesSenderList (sender email) (financialSenders defaultRules userRules),
      containsKeyword (subject email) (subjectKeywords defaultRules userRules),
      (case body_text email of
         None \<Rightarrow> False
       | Some body \<Rightarrow>
           body \<noteq> [] \<and>
           countKeywordMatches (substring body 0 1500) (bodyKeywords defaultRules userRules) \<ge> 2),
      True]"

definition first_match :: "bool list \<Rightarrow> nat" where
  "first_match conds = length (takeWhile Not conds)"

definition tier_verdict :: "nat \<Rightarrow> int \<times> real" where
  "tier_verdict k = [(0, 1.0), (1, 1.0), (1, 0.85), (1, 0.7), (0, 0.8)] ! k"

definition tier_tag :: "nat \<Rightarrow> string" where
  "tier_tag k =
     [''rules_ignore'', ''rules_sender'', ''rules_keyword'', ''rules_keyword'', ''rules_no_match''] ! k"

text \<open>
  The number of distinct keywords, compared ignoring case, that occur in a text ignoring
  case: what the specification calls distinct keyword hits.
\<close>

definition distinct_hits :: "string \<Rightarrow> string list \<Rightarrow> nat" where
  "distinct_hits txt keywords =
     length (remdups (map toLowerCase
       (filter (\<lambda>kw. str_includes (toLowerCase txt) (toLowerCase kw)) keywords)))"

section \<open>Organic filter building and periodic refresh (src/input/filter.ts)\<close>

text \<open>\<open>[...new Set(xs)]\<close>: the first occurrence of every element, in order.\<close>

definition uniq :: "'a list \<Rightarrow> 'a list" where
  "uniq xs = fold (\<lambda>x acc. if x \<in> set acc then acc else acc @ [x]) xs []"

text \<open>\<open>SELECT DISTINCT sender FROM emails\<close> and
  \<open>SELECT DISTINCT subject FROM emails WHERE sender IN (...)\<close>\<close>

definition getAllUniqueSenders :: "world \<Rightarrow> string list" where
  "getAllUniqueSenders w = uniq (map sender (emails w))"

definition getSubjectsBySenders :: "world \<Rightarrow> string list \<Rightarrow> string list" where
  "getSubjectsBySenders w senders =
     (if length senders = 0 then []
      else uniq (map subject (filter (\<lambda>e. sender e \<in> set senders) (emails w))))"

text \<open>
  What one \<open>try\<close> block around a model call comes to: the call (or building its prompt)
  throws; the call returns, using some tokens, and reading its answer throws; or the
  answer is read, giving the arrays looked for (\<open>None\<close> for one that is missing or not an
  array).
\<close>

datatype 'a reply = Call_failed | Parse_failed int | Parsed int 'a

text \<open>STEP 2 of \<open>buildOrganicFilter\<close>: the loop over \<open>allSenders\<close>, on the pair
  \<open>(knownFinancial, unknownSenders)\<close>.\<close>

fun prefilter :: "DefaultRules \<Rightarrow> string list \<Rightarrow> string list \<times> string list \<Rightarrow> string list \<times> string list" where
  "prefilter defaultRules [] acc = acc"
| "prefilter defaultRules (sendr # rest) (knownFinancial, unknownSenders) =
     (if matchesSenderList sendr (d_senders_ignore defaultRules)
      then prefilter defaultRules rest (knownFinancial, unknownSenders)
      else if matchesSenderList sendr (d_senders_financial defaultRules)
      then prefilter defaultRules rest (knownFinancial @ [sendr], unknownSenders)
      else prefilter defaultRules rest (knownFinancial, unknownSenders @ [sendr]))"

text \<open>STEP 3: the loop \<open>for (let i = 0; i < unknownSenders.length; i += 100)\<close>, on the pair
  \<open>(totalTokens, llmFinancial)\<close>. \<open>classify batchNum batch\<close> is what the model call for
  that batch comes to.\<close>

function classifyBatches ::
  "(nat \<Rightarrow> string list \<Rightarrow> string list option reply) \<Rightarrow> string list \<Rightarrow> nat \<Rightarrow>
   int \<times> string list \<Rightarrow> int \<times> string list" where
  "classifyBatches classify unknownSenders i acc =
     (if i < length unknownSenders then
        (let totalTokens = fst acc;
             llmFinancial = snd acc;
             batch = take 100 (drop i unknownSenders);
             batchNum = i div 100 + 1
         in classifyBatches classify unknownSenders (i + 100)
              (case classify batchNum batch of
                 Call_failed \<Rightarrow> (totalTokens, llmFinancial)
               | Parse_failed used \<Rightarrow> (totalTokens + used, llmFinancial)
               | Parsed used financial \<Rightarrow>
                   (totalTokens + used,
                    case financial of
                      None \<Rightarrow> llmFinancial
                    | Some fs \<Rightarrow> llmFinancial @ map toLowerCase fs)))
      else acc)"
  by pat_completeness auto
termination
  by (relation "measure (\<lambda>(classify, unknownSenders, i, acc). length unknownSenders - i)") auto

declare classifyBatches.simps [simp del]

text \<open>
  \<open>buildOrganicFilter\<close> returns the tokens used; the model returns with them what
  \<open>saveUserRules\<close> wrote, \<open>None\<close> when it was not called. \<open>extract\<close> is what the keyword
  extraction call comes to, on the first 200 subjects.
\<close>

definition buildOrganicFilter ::
  "DefaultRules \<Rightarrow> (nat \<Rightarrow> string list \<Rightarrow> string list option reply) \<Rightarrow>
   (string list \<Rightarrow> (string list option \<times> string list option) reply) \<Rightarrow>
   world \<Rightarrow> (int \<times> UserRules option) \<times> world" where
  "buildOrganicFilter defaultRules classify extract w =
     (let totalTokens = 0;
          allSenders = getAllUniqueSenders w
      in if length allSenders = 0 then ((0, None), w)
         else
           (let (knownFinancial, unknownSenders) = prefilter defaultRules allSenders ([], []);
                (totalTokens, llmFinancial) =
                  classifyBatches classify unknownSenders 0 (totalTokens, []);
                llmIgnore = [];
                allFinancialSenders = uniq (knownFinancial @ llmFinancial);
                financialSubjects = getSubjectsBySenders w allFinancialSenders;
                (totalTokens, extractedSubjectKeywords, extractedBodyKeywords) =
                  (if length financialSubjects > 0 then
                     (case extract (take 200 financialSubjects) of
                        Call_failed \<Rightarrow> (totalTokens, [], [])
                      | Parse_failed used \<Rightarrow> (totalTokens + used, [], [])
                      | Parsed used (subject_keywords, body_keywords) \<Rightarrow>
                          (totalTokens + used,
                           case subject_keywords of None \<Rightarrow> [] | Some ks \<Rightarrow> ks,
                           case body_keywords of None \<Rightarrow> [] | Some ks \<Rightarrow> ks))
                   else (totalTokens, [], []));
                (generated, w) = Date_now w;
                (refreshed, w) = Date_now w
            in ((totalTokens,
                 Some \<lparr>u_version = 1, generated_at = generated, last_refreshed_at = refreshed,
                       u_senders_financial = allFinancialSenders, u_senders_ignore = llmIgnore,
                       u_senders_pending_review = [],
                       u_keywords_subject = extractedSubjectKeywords,
                       u_keywords_body = extractedBodyKeywords\<rparr>), w)))"

text \<open>
  \<open>refreshFilter\<close>, on the user rules as \<open>loadUserRules\<close> returns them.
  \<open>refreshIntervalDays\<close> is the configured interval and \<open>reclassify\<close> what the one model
  call on the new senders comes to.
\<close>

definition refreshFilter ::
  "DefaultRules \<Rightarrow> int \<Rightarrow> (nat \<Rightarrow> string list \<Rightarrow> string list option reply) \<Rightarrow>
   (string list \<Rightarrow> (string list option \<times> string list option) reply) \<Rightarrow>
   (string list \<Rightarrow> string list option reply) \<Rightarrow>
   UserRules option \<Rightarrow> world \<Rightarrow> (int \<times> UserRules option) \<times> world" where
  "refreshFilter defaultRules refreshIntervalDays classify extract reclassify loaded w =
     (case loaded of
        None \<Rightarrow> buildOrganicFilter defaultRules classify extract w
      | Some userRules \<Rightarrow>
          (let lastRefresh = last_refreshed_at userRules;
               refreshInterval = refreshIntervalDays * 86400000;
               (now, w) = Date_now w
           in if now - lastRefresh < refreshInterval then ((0, None), w)
              else
                (let totalTokens = 0;
                     allSenders = getAllUniqueSenders w;
                     knownSenders = set (u_senders_financial userRules @ u_senders_ignore userRules);
                     newSenders = filter (\<lambda>s. s \<notin> knownSenders) allSenders;
                     trulyNew = filter (\<lambda>s. \<not> matchesSenderList s (d_senders_financial defaultRules) \<and>
                                             \<not> matchesSenderList s (d_senders_ignore defaultRules))
                                  newSenders
                 in if length trulyNew = 0 then
                      (let (refreshed, w) = Date_now w
                       in ((0, Some (userRules\<lparr>last_refreshed_at := refreshed\<rparr>)), w))
                    else
                      (let (totalTokens, userRules) =
                             (case reclassify trulyNew of
                                Call_failed \<Rightarrow> (totalTokens, userRules)
                              | Parse_failed used \<Rightarrow> (totalTokens + used, userRules)
                              | Parsed used financial \<Rightarrow>
                                  (totalTokens + used,
                                   case financial of
                                     None \<Rightarrow> userRules
                                   | Some fs \<Rightarrow>
                                       (let newFinancial = map toLowerCase fs
                                        in userRules
                                             \<lparr>u_senders_financial :=
                                                u_senders_financial userRules @ newFinancial,
                                              u_senders_pending_review :=
                                                u_senders_pending_review userRules @ newFinancial\<rparr>)));
                           userRules = userRules\<lparr>u_senders_financial := uniq (u_senders_financial userRules)\<rparr>;
                           (refreshed, w) = Date_now w;
                           userRules = userRules\<lparr>last_refreshed_at := refreshed\<rparr>
                       in ((totalTokens, Some userRules), w)))))"

section \<open>Briefings and pipeline runs (src/store/database.ts)\<close>

text \<open>
  \<open>INTEGER PRIMARY KEY AUTOINCREMENT\<close>: a new row gets an id above every id in the
  table. No modelled operation deletes a row.
\<close>

definition next_id :: "nat list \<Rightarrow> nat" where
  "next_id ids = Suc (fold max ids 0)"

text \<open>\<open>INSERT OR IGNORE INTO emails\<close>: a row whose id is stored already is dropped.\<close>

definition insertEmail :: "EmailRow \<Rightarrow> world \<Rightarrow> world" where
  "insertEmail email w =
     (if email_row_id email \<in> email_row_id ` set (emails w) then w
      else w\<lparr>emails := emails w @ [email]\<rparr>)"

definition getUnclassifiedEmailIds :: "world \<Rightarrow> string list" where
  "getUnclassifiedEmailIds w =
     map email_row_id (filter (\<lambda>e. classifications w (email_row_id e) = None) (emails w))"

definition getFinancialEmailIdsSince :: "world \<Rightarrow> int \<Rightarrow> string list" where
  "getFinancialEmailIdsSince w sinceTs =
     map email_row_id
       (sort_key (\<lambda>e. - received_at e)
          (filter (\<lambda>e. (case classifications w (email_row_id e) of
                            None \<Rightarrow> False
                          | Some c \<Rightarrow> is_financial c = 1) \<and>
                        received_at e \<ge> sinceTs)
             (emails w)))"

record NewBriefing =
  nb_generated_at :: int
  nb_period_start :: int
  nb_period_end :: int
  nb_email_count :: nat
  nb_content :: string
  nb_model_used :: "string option"
  nb_tokens_used :: int

definition insertBriefing :: "NewBriefing \<Rightarrow> world \<Rightarrow> nat \<times> world" where
  "insertBriefing b w =
     (let rowid = next_id (map b_id (briefings w))
      in (rowid,
          w\<lparr>briefings := briefings w @
               [\<lparr>b_id = rowid, b_generated_at = nb_generated_at b,
                 b_period_start = nb_period_start b, b_period_end = nb_period_end b,
                 b_email_count = nb_email_count b, b_content = nb_content b,
                 b_model_used = nb_model_used b, b_tokens_used = nb_tokens_used b,
                 delivered = 0, delivered_via = None, delivered_at = None\<rparr>]\<rparr>))"

definition markBriefingDelivered :: "nat \<Rightarrow> string \<Rightarrow> world \<Rightarrow> world" where
  "markBriefingDelivered ident chan w =
     (let (now, w) = Date_now w
      in w\<lparr>briefings :=
             map (\<lambda>b. if b_id b = ident
                      then b\<lparr>delivered := 1, delivered_via := Some chan, delivered_at := Some now\<rparr>
                      else b)
               (briefings w)\<rparr>)"

definition markBriefingFailed :: "nat \<Rightarrow> world \<Rightarrow> world" where
  "markBriefingFailed ident w =
     w\<lparr>briefings := map (\<lambda>b. if b_id b = ident then b\<lparr>delivered := - 1\<rparr> else b) (briefings w)\<rparr>"

definition createPipelineRun :: "trigger \<Rightarrow> world \<Rightarrow> nat \<times> world" where
  "createPipelineRun trg w =
     (let (now, w) = Date_now w;
          rowid = next_id (map run_id (pipeline_runs w))
      in (rowid,
          w\<lparr>pipeline_runs := pipeline_runs w @
               [\<lparr>run_id = rowid, started_at = now, finished_at = None, status = ''running'',
                 run_trigger = trg, period_start = None, period_end = None,
                 emails_fetched = 0, emails_classified = 0, emails_financial = 0,
                 tokens_used = 0, briefing_id = None, error = None\<rparr>]\<rparr>))"

text \<open>
  \<open>updatePipelineRun(id, updates)\<close> sets the columns named by the keys of \<open>updates\<close>;
  one \<open>run_update\<close> is one key with its value.
\<close>

datatype run_update =
    Set_status string
  | Set_finished_at int
  | Set_period_start int
  | Set_period_end int
  | Set_emails_fetched nat
  | Set_emails_classified nat
  | Set_emails_financial nat
  | Set_tokens_used int
  | Set_briefing_id nat
  | Set_error string

fun set_column :: "run_update \<Rightarrow> PipelineRunRow \<Rightarrow> PipelineRunRow" where
  "set_column (Set_status v) r = r\<lparr>status := v\<rparr>"
| "set_column (Set_finished_at v) r = r\<lparr>finished_at := Some v\<rparr>"
| "set_column (Set_period_start v) r = r\<lparr>period_start := Some v\<rparr>"
| "set_column (Set_period_end v) r = r\<lparr>period_end := Some v\<rparr>"
| "set_column (Set_emails_fetched v) r = r\<lparr>emails_fetched := v\<rparr>"
| "set_column (Set_emails_classified v) r = r\<lparr>emails_classified := v\<rparr>"
| "set_column (Set_emails_financial v) r = r\<lparr>emails_financial := v\<rparr>"
| "set_column (Set_tokens_used v) r = r\<lparr>tokens_used := v\<rparr>"
| "set_column (Set_briefing_id v) r = r\<lparr>briefing_id := Some v\<rparr>"
| "set_column (Set_error v) r = r\<lparr>error := Some v\<rparr>"

definition updatePipelineRun :: "nat \<Rightarrow> run_update list \<Rightarrow> world \<Rightarrow> world" where
  "updatePipelineRun ident updates w =
     w\<lparr>pipeline_runs :=
         map (\<lambda>r. if run_id r = ident then fold set_column updates r else r) (pipeline_runs w)\<rparr>"

text \<open>
  \<open>SELECT * FROM pipeline_runs WHERE status IN ('success','skipped') ORDER BY finished_at
  DESC LIMIT 1\<close>: the row with the greatest \<open>finished_at\<close> among those with one of the two
  statuses, \<open>NULL\<close> below every value; among equal ones, the first stored.
\<close>

definition finished_later :: "PipelineRunRow \<Rightarrow> PipelineRunRow \<Rightarrow> bool" where
  "finished_later r best =
     (case finished_at r of
        None \<Rightarrow> False
      | Some t \<Rightarrow> (case finished_at best of None \<Rightarrow> True | Some u \<Rightarrow> u < t))"

fun latest_run :: "PipelineRunRow list \<Rightarrow> PipelineRunRow option \<Rightarrow> PipelineRunRow option" where
  "latest_run [] best = best"
| "latest_run (r # rs) None = latest_run rs (Some r)"
| "latest_run (r # rs) (Some b) = latest_run rs (if finished_later r b then Some r else Some b)"

definition getLastSuccessfulRun :: "world \<Rightarrow> PipelineRunRow option" where
  "getLastSuccessfulRun w =
     latest_run (filter (\<lambda>r. status r = ''success'' \<or> status r = ''skipped'') (pipeline_runs w)) None"

section \<open>Briefing generation (src/process/intelligence.ts)\<close>

record BriefingResult =
  briefingId :: nat
  br_content :: string
  br_tokensUsed :: int

text \<open>
  \<open>generateBriefing\<close> reads the clock, has the model write the briefing text and stores
  the briefing. \<open>written\<close> is the outcome of the part that formats the emails and calls
  the model, once or in batches with a consolidation pass: the text and the tokens used,
  or the error thrown. The action items go to a table that is not modelled.
\<close>

definition generateBriefing ::
  "(string + string \<times> int) \<Rightarrow> string list \<Rightarrow> int \<Rightarrow> int \<Rightarrow> world \<Rightarrow> (string + BriefingResult) \<times> world" where
  "generateBriefing written finEmailIds periodStart periodEnd w =
     (let (now, w) = Date_now w
      in case written of
           Inl err \<Rightarrow> (Inl err, w)
         | Inr (briefingText, totalTokens) \<Rightarrow>
             (let (ident, w) = insertBriefing
                    \<lparr>nb_generated_at = now, nb_period_start = periodStart,
                     nb_period_end = periodEnd, nb_email_count = length finEmailIds,
                     nb_content = briefingText, nb_model_used = None,
                     nb_tokens_used = totalTokens\<rparr> w
              in (Inr \<lparr>briefingId = ident, br_content = briefingText,
                        br_tokensUsed = totalTokens\<rparr>, w)))"

section \<open>The pipeline (src/pipeline.ts)\<close>

text \<open>
  What one run finds outside the store: the two configuration values it reads, the local
  calendar day of an instant (\<open>toDateString\<close>), the rule files as \<open>classifyEmails\<close> loads
  them, and the outcomes of the four stages that call external services. \<open>fetchEmails\<close>
  inserts \<open>fetched_rows\<close> and then returns a count or throws; \<open>refreshFilter\<close> returns
  the tokens it used or throws; \<open>sendBriefing\<close> returns (\<open>None\<close>) or throws an error
  with the given message.
\<close>

record env =
  initialFetchDays :: int
  channel :: string
  toDateString :: "int \<Rightarrow> string"
  env_defaultRules :: DefaultRules
  env_userRules :: "UserRules option"
  fetched_rows :: "EmailRow list"
  fetch_outcome :: "string + nat"
  refresh_outcome :: "string + int"
  briefing_written :: "string + string \<times> int"
  send_outcome :: "string option"

text \<open>The \<open>catch (error)\<close> block of \<open>runPipeline\<close>; the error is thrown again.\<close>

definition run_failed :: "nat \<Rightarrow> int \<Rightarrow> string \<Rightarrow> world \<Rightarrow> string option \<times> world" where
  "run_failed runId totalTokens msg w =
     (let (t, w) = Date_now w
      in (Some msg,
          updatePipelineRun runId
            [Set_status ''failed'', Set_finished_at t, Set_tokens_used totalTokens, Set_error msg] w))"

text \<open>
  \<open>runPipeline\<close> returns \<open>None\<close> where the source returns and \<open>Some msg\<close> where it
  throws. It is modelled in two parts. \<open>runStages\<close> is the part from \<open>Step 1: Fetch
  emails\<close> to the end, for the run \<open>runId\<close> and the period found before.
\<close>

definition runStages :: "env \<Rightarrow> nat \<Rightarrow> int \<Rightarrow> int \<Rightarrow> world \<Rightarrow> string option \<times> world" where
  "runStages env runId periodStart periodEnd w =
     (let totalTokens = 0;
          w = fold insertEmail (fetched_rows env) w
      in case fetch_outcome env of
           Inl msg \<Rightarrow> run_failed runId totalTokens msg w
         | Inr fetched \<Rightarrow>
             (let w = updatePipelineRun runId [Set_emails_fetched fetched] w
              in case refresh_outcome env of
                   Inl msg \<Rightarrow> run_failed runId totalTokens msg w
                 | Inr refreshTokens \<Rightarrow>
                     (let totalTokens = totalTokens + refreshTokens;
                          unclassifiedIds = getUnclassifiedEmailIds w;
                          (classifyResult, w) =
                            classifyEmails (env_defaultRules env) (env_userRules env)
                              unclassifiedIds w;
                          w = updatePipelineRun runId
                                [Set_emails_classified (total classifyResult),
                                 Set_emails_financial (financialCount classifyResult)] w;
                          financialIds = getFinancialEmailIdsSince w periodStart
                      in if length financialIds = 0 then
                           (let (t, w) = Date_now w
                            in (None, updatePipelineRun runId
                                        [Set_status ''skipped'', Set_finished_at t,
                                         Set_tokens_used totalTokens] w))
                         else
                           (case generateBriefing (briefing_written env) financialIds
                                   periodStart periodEnd w of
                              (Inl msg, w) \<Rightarrow> run_failed runId totalTokens msg w
                            | (Inr briefingResult, w) \<Rightarrow>
                                (let totalTokens = totalTokens + br_tokensUsed briefingResult;
                                     w = updatePipelineRun runId
                                           [Set_tokens_used totalTokens,
                                            Set_briefing_id (briefingId briefingResult)] w
                                 in case send_outcome env of
                                      None \<Rightarrow>
                                        (let w = markBriefingDelivered
                                                   (briefingId briefingResult) (channel env) w;
                                             (t, w) = Date_now w
                                         in (None, updatePipelineRun runId
                                                     [Set_status ''success'', Set_finished_at t,
                                                      Set_tokens_used totalTokens] w))
                                    | Some deliveryError \<Rightarrow>
                                        (let w = markBriefingFailed (briefingId briefingResult) w;
                                             (t, w) = Date_now w
                                         in (None, updatePipelineRun runId
                                                     [Set_status ''partial'', Set_finished_at t,
                                                      Set_tokens_used totalTokens,
                                                      Set_error (''Delivery failed: '' @ deliveryError)]
                                                     w)))))))"

text \<open>
  The part before: the run row is created, the period is determined, and a scheduled run
  on a day that has a run already is skipped. \<open>lastRun?.period_end\<close> and
  \<open>lastRun?.finished_at\<close> are tested for truth: the value is there and is not 0.
\<close>

definition runPipeline :: "env \<Rightarrow> trigger \<Rightarrow> world \<Rightarrow> string option \<times> world" where
  "runPipeline env trg w =
     (let (runId, w) = createPipelineRun trg w;
          lastRun = getLastSuccessfulRun w;
          (now, w) = Date_now w;
          (todayStart, w) = Date_now w;
          periodStart =
            (case (case lastRun of None \<Rightarrow> None | Some r \<Rightarrow> period_end r) of
               Some pe \<Rightarrow> if pe \<noteq> 0 then pe else now - initialFetchDays env * 86400000
             | None \<Rightarrow> now - initialFetchDays env * 86400000);
          periodEnd = now;
          (ranToday, w) =
            (case (case lastRun of None \<Rightarrow> None | Some r \<Rightarrow> finished_at r) of
               Some fin \<Rightarrow>
                 if fin \<noteq> 0
                 then (let (today, w) = Date_now w
                       in (toDateString env fin = toDateString env today \<and> trg = scheduled, w))
                 else (False, w)
             | None \<Rightarrow> (False, w))
      in if ranToday then
           (None, updatePipelineRun runId
                    [Set_status ''skipped'', Set_finished_at now,
                     Set_period_start periodStart, Set_period_end periodEnd] w)
         else
           (let w = updatePipelineRun runId [Set_period_start periodStart, Set_period_end periodEnd] w
            in runStages env runId periodStart periodEnd w))"

section \<open>The unified inference call with retry (src/process/llm-interface.ts)\<close>






section \<open>Example data\<close>

text \<open>Rules, emails and stores on which the theorems below are instantiated.\<close>

definition ex_rules :: DefaultRules where
  "ex_rules =
     \<lparr>d_version = 1, d_senders_financial = [''*@bank.example''],
      d_senders_ignore = [''promo@bank.example''], d_keywords_subject = [''statement''],
      d_keywords_body = [''emi'', ''due''],
      d_categories = [(''bank_alert'', \<lparr>senderHints = [''bank''], keywordHints = [''debited'']\<rparr>)]\<rparr>"

definition ex_email :: "string \<Rightarrow> string \<Rightarrow> string \<Rightarrow> string option \<Rightarrow> EmailRow" where
  "ex_email ident sendr subj body =
     \<lparr>email_row_id = ident, thread_id = None, sender = sendr, sender_name = None,
      subject = subj, body_text = body, received_at = 1700000000000,
      fetched_at = 1700000005000, labels = None\<rparr>"

definition ex_world :: world where
  "ex_world =
     \<lparr>emails =
        [ex_email ''m1'' ''promo@bank.example'' ''Offers for you'' None,
         ex_email ''m2'' ''news@shop.example'' ''Hello'' (Some ''Your EMI is due on Friday''),
         ex_email ''m3'' ''alerts@bank.example'' ''Account debited'' None,
         ex_email ''m4'' ''news@shop.example'' ''Your statement is ready'' None,
         ex_email ''m5'' ''news@shop.example'' ''Hello again'' (Some ''No EMI this month'')],
      classifications = Map.empty, briefings = [], pipeline_runs = [],
      wall = (\<lambda>n. 1700000100000 + int n), ticks = 0\<rparr>"

definition ex_user_rules :: UserRules where
  "ex_user_rules =
     \<lparr>u_version = 1, generated_at = 1690000000000, last_refreshed_at = 1690000000000,
      u_senders_financial = [''Billing@Shop.Example''], u_senders_ignore = [],
      u_senders_pending_review = [], u_keywords_subject = [], u_keywords_body = [''emi'']\<rparr>"

definition ex_stored :: ClassificationRow where
  "ex_stored =
     \<lparr>email_id = ''m1'', is_financial = 1, category = Some ''bank_alert'', confidence = 0.85,
      classified_by = ''rules_keyword'', classified_at = 1699999999000\<rparr>"

definition ex_world_stored :: world where
  "ex_world_stored = ex_world\<lparr>classifications := [''m1'' \<mapsto> ex_stored]\<rparr>"

definition ex_env :: env where
  "ex_env =
     \<lparr>initialFetchDays = 90, channel = ''whatsapp'',
      toDateString = (\<lambda>t. if t < 1700000000000 then ''Tue Nov 14 2023'' else ''Wed Nov 15 2023''),
      env_defaultRules = ex_rules, env_userRules = None,
      fetched_rows = [ex_email ''m6'' ''alerts@bank.example'' ''Card payment due'' None],
      fetch_outcome = Inr 1, refresh_outcome = Inr 11,
      briefing_written = Inr (''Briefing: 2 payments due'', 31),
      send_outcome = Some ''socket closed''\<rparr>"

definition ex_skipped_run :: PipelineRunRow where
  "ex_skipped_run =
     \<lparr>run_id = 1, started_at = 1699990000000, finished_at = Some 1699990000500,
      status = ''skipped'', run_trigger = scheduled, period_start = Some 1692214000000,
      period_end = Some 1699990000000, emails_fetched = 0, emails_classified = 0,
      emails_financial = 0, tokens_used = 0, briefing_id = None, error = None\<rparr>"

definition ex_world_skipped :: world where
  "ex_world_skipped = ex_world\<lparr>pipeline_runs := [ex_skipped_run]\<rparr>"



section \<open>Notions used in the proofs\<close>

text \<open>
  \<open>keeps_period\<close>: the update sets neither \<open>period_start\<close> nor \<open>period_end\<close>.
  \<open>has_period rid rows ps pe rs\<close>: the table \<open>rs\<close> is \<open>rows\<close> followed by the row of run
  \<open>rid\<close>, whose period is from \<open>ps\<close> to \<open>pe\<close>.
\<close>

definition keeps_period :: "run_update \<Rightarrow> bool" where
  "keeps_period u = (case u of Set_period_start v \<Rightarrow> False | Set_period_end v \<Rightarrow> False | _ \<Rightarrow> True)"

definition has_period :: "nat \<Rightarrow> PipelineRunRow list \<Rightarrow> int \<Rightarrow> int \<Rightarrow> PipelineRunRow list \<Rightarrow> bool" where
  "has_period rid rows ps pe rs =
     (\<exists>r. rs = rows @ [r] \<and> run_id r = rid \<and> period_start r = Some ps \<and> period_end r = Some pe)"

text \<open>
  \<open>same_mail v w\<close>: the two states hold the same emails, and the same ids are classified
  in both, with the same \<open>is_financial\<close>.
\<close>

definition same_mail :: "world \<Rightarrow> world \<Rightarrow> bool" where
  "same_mail v w =
     (emails v = emails w \<and>
      (\<forall>k. map_option is_financial (classifications v k) =
           map_option is_financial (classifications w k)))"

text \<open>A store with a sender the user rules list with capitals, and the model answers
  used with it.\<close>

definition ex_world_refresh :: world where
  "ex_world_refresh =
     ex_world\<lparr>emails := emails ex_world @
       [ex_email ''m7'' ''billing@shop.example'' ''Invoice 42'' None]\<rparr>"

definition ex_classify :: "nat \<Rightarrow> string list \<Rightarrow> string list option reply" where
  "ex_classify batchNum batch = Parsed 120 (Some (filter (\<lambda>s. s = ''billing@shop.example'') batch))"

definition ex_extract :: "string list \<Rightarrow> (string list option \<times> string list option) reply" where
  "ex_extract subjects = Parsed 80 (Some [''invoice'', ''debited''], Some [''emi''])"

definition ex_reclassify :: "string list \<Rightarrow> string list option reply" where
  "ex_reclassify new = Parsed 60 (Some (filter (\<lambda>s. s = ''billing@shop.example'') new))"

definition ex_user_rules_lower :: UserRules where
  "ex_user_rules_lower = ex_user_rules\<lparr>u_senders_financial := [''billing@shop.example'']\<rparr>"

text \<open>
  Three values that \<open>refreshFilter\<close> computes on user rules \<open>userRules\<close>: whether the
  refresh is due at the first clock reading, the list \<open>trulyNew\<close> of senders that neither
  the user rules nor the default rules know, and the list \<open>newFinancial\<close> read from the
  model's answer (empty when the call or the reading fails or the array is missing).
\<close>

definition refresh_due :: "int \<Rightarrow> UserRules \<Rightarrow> world \<Rightarrow> bool" where
  "refresh_due refreshIntervalDays userRules w =
     (\<not> wall w (ticks w) - last_refreshed_at userRules < refreshIntervalDays * 86400000)"

definition refresh_trulyNew :: "DefaultRules \<Rightarrow> UserRules \<Rightarrow> world \<Rightarrow> string list" where
  "refresh_trulyNew defaultRules userRules w =
     filter (\<lambda>s. \<not> matchesSenderList s (d_senders_financial defaultRules) \<and>
                  \<not> matchesSenderList s (d_senders_ignore defaultRules))
       (filter (\<lambda>s. s \<notin> set (u_senders_financial userRules @ u_senders_ignore userRules))
          (getAllUniqueSenders w))"

definition refresh_newFinancial :: "string list option reply \<Rightarrow> string list" where
  "refresh_newFinancial answer =
     (case answer of
        Call_failed \<Rightarrow> []
      | Parse_failed used \<Rightarrow> []
      | Parsed used financial \<Rightarrow> (case financial of None \<Rightarrow> [] | Some fs \<Rightarrow> map toLowerCase fs))"

definition ex_reclassify_twice :: "string list \<Rightarrow> string list option reply" where
  "ex_reclassify_twice new =
     Parsed 60 (Some [''News@Shop.Example'', ''news@shop.example'', ''billing@shop.example''])"

text \<open>
  A store with one successful run, whose period ended at 1700000040000; a financial email
  received after that; and the stores after a scheduled run on the same day and after a
  manual run that follows it and fetches the email.
\<close>

definition ex_success_run :: PipelineRunRow where
  "ex_success_run =
     \<lparr>run_id = 1, started_at = 1700000040000, finished_at = Some 1700000040500,
      status = ''success'', run_trigger = scheduled, period_start = Some 1699990000000,
      period_end = Some 1700000040000, emails_fetched = 5, emails_classified = 5,
      emails_financial = 3, tokens_used = 42, briefing_id = None, error = None\<rparr>"

definition ex_world_success :: world where
  "ex_world_success = ex_world\<lparr>pipeline_runs := [ex_success_run]\<rparr>"

definition ex_mail_between :: EmailRow where
  "ex_mail_between =
     (ex_email ''m8'' ''alerts@bank.example'' ''Account debited'' None)
       \<lparr>received_at := 1700000060000, fetched_at := 1700000100005\<rparr>"

definition ex_env_next :: env where
  "ex_env_next = ex_env\<lparr>fetched_rows := [ex_mail_between], send_outcome := None\<rparr>"

definition ex_after_skip :: world where
  "ex_after_skip = snd (runPipeline ex_env scheduled ex_world_success)"

definition ex_after_next :: world where
  "ex_after_next = snd (runPipeline ex_env_next manual ex_after_skip)"

section \<open>Lower case and sender patterns\<close>

lemma of_char_lowerChar:
  "(of_char (lowerChar c) :: nat) =
     (let n = of_char c
      in if (65 \<le> n \<and> n \<le> 90) \<or> (192 \<le> n \<and> n \<le> 222 \<and> n \<noteq> 215) then n + 32 else n)"
  by (auto simp: lowerChar_def Let_def)

lemma lowerChar_idem: "lowerChar (lowerChar c) = lowerChar c"
proof -
  have "(of_char (lowerChar (lowerChar c)) :: nat) = of_char (lowerChar c)"
    by (auto simp: of_char_lowerChar Let_def)
  then show ?thesis by (metis char_of_char)
qed

lemma toLowerCase_idem: "toLowerCase (toLowerCase s) = toLowerCase s"
  by (simp add: toLowerCase_def lowerChar_idem)

lemma lowerChar_star: "lowerChar c = CHR ''*'' \<longleftrightarrow> c = CHR ''*''"
proof
  assume a: "lowerChar c = CHR ''*''"
  have "(of_char (lowerChar c) :: nat) = 42" by (simp add: a)
  then have "(of_char c :: nat) = 42"
    by (auto simp: of_char_lowerChar Let_def split: if_splits)
  then have "(of_char c :: nat) = of_char CHR ''*''" by simp
  then show "c = CHR ''*''" by (simp only: of_char_eq_iff)
next
  assume "c = CHR ''*''" then show "lowerChar c = CHR ''*''" by (simp add: lowerChar_def)
qed

lemma startsWith_star: "startsWith p ''*'' \<longleftrightarrow> (\<exists>rest. p = CHR ''*'' # rest)"
  by (cases p) (auto simp: startsWith_def)

lemma startsWith_star_lower: "startsWith (toLowerCase p) ''*'' = startsWith p ''*''"
  by (cases p) (auto simp: startsWith_def toLowerCase_def lowerChar_star)

lemma matches_wildcard:
  "matchesSenderPattern address (CHR ''*'' # rest) = endsWith (toLowerCase address) (toLowerCase rest)"
proof -
  have "toLowerCase (CHR ''*'' # rest) = CHR ''*'' # toLowerCase rest"
    by (simp add: toLowerCase_def lowerChar_def)
  then show ?thesis
    by (simp add: matchesSenderPattern_def Let_def startsWith_def substring_def)
qed

lemma matches_exact:
  "\<not> startsWith pattern ''*'' \<Longrightarrow>
   matchesSenderPattern address pattern = (toLowerCase address = toLowerCase pattern)"
  by (simp add: matchesSenderPattern_def Let_def startsWith_star_lower)

lemma matches_ci:
  "matchesSenderPattern (toLowerCase address) (toLowerCase pattern) = matchesSenderPattern address pattern"
  by (simp add: matchesSenderPattern_def toLowerCase_idem)

text \<open>
  C8. Sender matching ignores case in the address and in the pattern. A pattern that
  starts with \<open>*\<close> matches the addresses that end with the rest of the pattern, the rest
  taken literally; any other pattern matches only the addresses equal to it ignoring
  case. \<open>*@bank.example\<close> matches \<open>alerts@bank.example\<close> and \<open>Alerts@Bank.Example\<close>,
  and neither \<open>bank.example\<close> nor \<open>x@notbank.example\<close>.
\<close>

theorem matchesSenderPattern_spec:
  "(matchesSenderPattern (toLowerCase address) (toLowerCase pattern) =
      matchesSenderPattern address pattern) \<and>
   (matchesSenderPattern address (CHR ''*'' # rest) =
      endsWith (toLowerCase address) (toLowerCase rest)) \<and>
   (\<not> startsWith pattern ''*'' \<longrightarrow>
      matchesSenderPattern address pattern = (toLowerCase address = toLowerCase pattern)) \<and>
   matchesSenderPattern ''alerts@bank.example'' ''*@bank.example'' \<and>
   matchesSenderPattern ''Alerts@Bank.Example'' ''*@bank.example'' \<and>
   \<not> matchesSenderPattern ''bank.example'' ''*@bank.example'' \<and>
   \<not> matchesSenderPattern ''x@notbank.example'' ''*@bank.example''"
proof -
  have c1: "matchesSenderPattern ''alerts@bank.example'' ''*@bank.example''" by code_simp
  have c2: "matchesSenderPattern ''Alerts@Bank.Example'' ''*@bank.example''" by code_simp
  have c3: "\<not> matchesSenderPattern ''bank.example'' ''*@bank.example''" by code_simp
  have c4: "\<not> matchesSenderPattern ''x@notbank.example'' ''*@bank.example''" by code_simp
  show ?thesis
    using c1 c2 c3 c4 matches_ci[of address pattern] matches_wildcard[of address rest]
      matches_exact[of pattern address]
    by blast
qed

theorem matchesSenderPattern_spec_witness:
  "\<not> startsWith ''Billing@Shop.Example'' ''*'' \<and>
   matchesSenderPattern ''billing@shop.example'' ''Billing@Shop.Example'' \<and>
   \<not> matchesSenderPattern ''xbilling@shop.example'' ''Billing@Shop.Example''"
proof -
  have h: "\<not> startsWith ''Billing@Shop.Example'' ''*''" by code_simp
  have e1: "toLowerCase ''billing@shop.example'' = toLowerCase ''Billing@Shop.Example''" by code_simp
  have e2: "toLowerCase ''xbilling@shop.example'' \<noteq> toLowerCase ''Billing@Shop.Example''" by code_simp
  show ?thesis
    using h e1 e2
      matchesSenderPattern_spec[of "''billing@shop.example''" "''Billing@Shop.Example''"]
      matchesSenderPattern_spec[of "''xbilling@shop.example''" "''Billing@Shop.Example''"]
    by blast
qed

section \<open>Retry of the inference call\<close>




section \<open>Daily classification\<close>

lemma classifyStep_stored:
  assumes "getClassification w i = Some c"
  shows "snd (classifyStep D U i (r, w)) = w"
    and "total (fst (classifyStep D U i (r, w))) = total r + 1"
  using assms by (simp_all add: classifyStep_def Let_def)

lemma classifyStep_missing:
  assumes "getClassification w i = None" "getEmailsByIds w [i] = []"
  shows "classifyStep D U i (r, w) = (r, w)"
  using assms by (simp add: classifyStep_def Let_def)

lemma classifyStep_fresh:
  assumes "getClassification w i = None" "getEmailsByIds w [i] = email # others"
  shows "snd (classifyStep D U i (r, w)) =
           insertClassification (written_row i (decide D U email) (wall w (ticks w))) (w\<lparr>ticks := Suc (ticks w)\<rparr>)"
    and "total (fst (classifyStep D U i (r, w))) = total r + 1"
  using assms
  by (simp_all add: classifyStep_def Let_def decide_def written_row_def Date_now_def
        split: option.splits)

lemma classifyStep_other:
  "j \<noteq> i \<Longrightarrow> classifications (snd (classifyStep D U i (r, w))) j = classifications w j"
proof (cases "getClassification w i")
  case (Some c)
  then show ?thesis by (simp add: classifyStep_stored)
next
  case None
  assume ji: "j \<noteq> i"
  show ?thesis
  proof (cases "getEmailsByIds w [i]")
    case Nil
    with None show ?thesis by (simp add: classifyStep_missing)
  next
    case (Cons email others)
    with None ji show ?thesis
      by (simp add: classifyStep_fresh insertClassification_def written_row_def)
  qed
qed

lemma classifyStep_keeps:
  assumes "classifications w j = Some c"
  shows "classifications (snd (classifyStep D U i (r, w))) j = Some c"
proof (cases "j = i")
  case True
  with assms show ?thesis by (simp add: classifyStep_stored getClassification_def)
next
  case False
  with assms show ?thesis by (simp add: classifyStep_other)
qed

lemma classifyStep_emails:
  "emails (snd (classifyStep D U i (r, w))) = emails w"
proof (cases "getClassification w i")
  case (Some c)
  then show ?thesis by (simp add: classifyStep_stored)
next
  case None
  show ?thesis
  proof (cases "getEmailsByIds w [i]")
    case Nil
    with None show ?thesis by (simp add: classifyStep_missing)
  next
    case (Cons email others)
    with None show ?thesis
      by (simp add: classifyStep_fresh insertClassification_def)
  qed
qed

lemma getEmailsByIds_cong:
  "emails v = emails w \<Longrightarrow> getEmailsByIds v ids = getEmailsByIds w ids"
  by (simp add: getEmailsByIds_def)

lemma classifyLoop_keeps:
  "classifications w j = Some c \<Longrightarrow>
   classifications (snd (classifyLoop D U ids (r, w))) j = Some c"
proof (induction ids arbitrary: r w)
  case Nil
  then show ?case by simp
next
  case (Cons i ids)
  obtain r' w' where st: "classifyStep D U i (r, w) = (r', w')" by (cases "classifyStep D U i (r, w)")
  have "classifications w' j = Some c"
    using classifyStep_keeps[OF Cons.prems, of D U i r] st by simp
  from Cons.IH[OF this] st show ?case by simp
qed

lemma classifyLoop_emails:
  "emails (snd (classifyLoop D U ids (r, w))) = emails w"
proof (induction ids arbitrary: r w)
  case Nil
  then show ?case by simp
next
  case (Cons i ids)
  obtain r' w' where st: "classifyStep D U i (r, w) = (r', w')" by (cases "classifyStep D U i (r, w)")
  have "emails w' = emails w" using classifyStep_emails[of D U i r w] st by simp
  with Cons.IH[of r' w'] st show ?case by simp
qed

lemma classifyLoop_untouched:
  "j \<notin> set ids \<Longrightarrow>
   classifications (snd (classifyLoop D U ids (r, w))) j = classifications w j"
proof (induction ids arbitrary: r w)
  case Nil
  then show ?case by simp
next
  case (Cons i ids)
  obtain r' w' where st: "classifyStep D U i (r, w) = (r', w')" by (cases "classifyStep D U i (r, w)")
  have "classifications w' j = classifications w j"
    using classifyStep_other[of j i D U r w] st Cons.prems by simp
  with Cons.IH[of r' w'] Cons.prems st show ?case by simp
qed

lemma classifyLoop_append:
  "classifyLoop D U (xs @ ys) rw = classifyLoop D U ys (classifyLoop D U xs rw)"
  by (induction xs arbitrary: rw) simp_all

lemma classifyLoop_fresh:
  assumes "i \<in> set ids" "classifications w i = None" "getEmailsByIds w [i] = email # others"
  shows "\<exists>t. classifications (snd (classifyLoop D U ids (r, w))) i
           = Some (written_row i (decide D U email) t)"
proof -
  from assms(1) obtain pre post where sp: "ids = pre @ i # post" "i \<notin> set pre"
    by (meson split_list_first)
  obtain r1 w1 where l1: "classifyLoop D U pre (r, w) = (r1, w1)"
    by (cases "classifyLoop D U pre (r, w)")
  have c1: "classifications w1 i = None"
    using classifyLoop_untouched[OF sp(2), of D U r w] l1 assms(2) by simp
  have e1: "emails w1 = emails w" using classifyLoop_emails[of D U pre r w] l1 by simp
  have g1: "getEmailsByIds w1 [i] = email # others"
    using getEmailsByIds_cong[OF e1] assms(3) by simp
  obtain r2 w2 where l2: "classifyStep D U i (r1, w1) = (r2, w2)"
    by (cases "classifyStep D U i (r1, w1)")
  have "w2 = insertClassification (written_row i (decide D U email) (wall w1 (ticks w1)))
               (w1\<lparr>ticks := Suc (ticks w1)\<rparr>)"
    using classifyStep_fresh(1)[of w1 i email others D U r1] c1 g1 l2
    by (simp add: getClassification_def)
  then have c2: "classifications w2 i = Some (written_row i (decide D U email) (wall w1 (ticks w1)))"
    by (simp add: insertClassification_def written_row_def)
  have "classifyLoop D U ids (r, w) = classifyLoop D U post (r2, w2)"
    using sp(1) l1 l2 by (simp add: classifyLoop_append)
  with classifyLoop_keeps[OF c2, of D U post r2] show ?thesis by auto
qed

lemma decide_tiers:
  "decide D U email =
     (fst (tier_verdict (first_match (tier_conditions D U email))),
      (if first_match (tier_conditions D U email) \<in> {1, 2, 3}
       then detectCategory (sender email) (subject email) (d_categories D) else None),
      snd (tier_verdict (first_match (tier_conditions D U email))),
      tier_tag (first_match (tier_conditions D U email)))"
  by (simp add: decide_def tier_conditions_def first_match_def tier_verdict_def tier_tag_def)

lemma first_match_ignore:
  "matchesSenderList (sender email) (ignoreSenders D U) \<Longrightarrow>
   first_match (tier_conditions D U email) = 0"
  by (simp add: tier_conditions_def first_match_def)

lemma classifyEmails_fresh:
  assumes "i \<in> set ids"
    and "getClassification w i = None"
    and "getEmailsByIds w [i] = email # others"
  shows "\<exists>t. getClassification (snd (classifyEmails D U ids w)) i =
              Some (written_row i (decide D U email) t)"
  using classifyLoop_fresh[OF assms(1), of w email others D U] assms(2,3)
  by (simp add: classifyEmails_def getClassification_def)


lemma first_match_le: "first_match (tier_conditions D U email) \<le> 4"
  by (simp add: tier_conditions_def first_match_def)

lemma tier_tag_cases:
  assumes "k \<le> 4"
  shows "(k = 0 \<longleftrightarrow> tier_tag k = ''rules_ignore'') \<and>
     (k = 1 \<longleftrightarrow> tier_tag k = ''rules_sender'') \<and>
     (k = 2 \<longleftrightarrow> tier_tag k = ''rules_keyword'' \<and> snd (tier_verdict k) = 0.85) \<and>
     (k = 3 \<longleftrightarrow> tier_tag k = ''rules_keyword'' \<and> snd (tier_verdict k) = 0.7) \<and>
     (k = 4 \<longleftrightarrow> tier_tag k = ''rules_no_match'')"
proof -
  from assms have "k = 0 \<or> k = 1 \<or> k = 2 \<or> k = 3 \<or> k = 4" by arith
  then show ?thesis
    by (elim disjE) (simp_all add: tier_tag_def tier_verdict_def)
qed

text \<open>
  C1. Take any rules, any store and any list of ids, and an id of the list that has no
  stored classification and whose email is stored. After \<open>classifyEmails\<close> the id has a
  classification, and its relevance and confidence are those of the first of the five
  tiers, in the fixed order, whose condition the email meets. If the sender matches an
  ignore pattern, the email is not relevant with confidence 1, whether or not it also
  matches a relevant-sender pattern.
\<close>

theorem classifyEmails_tier_order:
  assumes "i \<in> set ids"
    and "getClassification w i = None"
    and "getEmailsByIds w [i] = email # others"
  shows "\<exists>c. getClassification (snd (classifyEmails D U ids w)) i = Some c \<and>
             (is_financial c, confidence c) =
               tier_verdict (first_match (tier_conditions D U email)) \<and>
             (matchesSenderList (sender email) (ignoreSenders D U) \<longrightarrow>
                is_financial c = 0 \<and> confidence c = 1)"
proof -
  from classifyEmails_fresh[OF assms, of D U]
  obtain t where
    "getClassification (snd (classifyEmails D U ids w)) i = Some (written_row i (decide D U email) t)"
    by blast
  then show ?thesis
    by (auto simp: written_row_def decide_tiers first_match_ignore tier_verdict_def)
qed

theorem classifyEmails_tier_order_witness:
  "''m1'' \<in> set [''m1'', ''m0'', ''m2''] \<and>
   getClassification ex_world ''m1'' = None \<and>
   getEmailsByIds ex_world [''m1''] =
     [ex_email ''m1'' ''promo@bank.example'' ''Offers for you'' None] \<and>
   matchesSenderList ''promo@bank.example'' (ignoreSenders ex_rules None) \<and>
   matchesSenderList ''promo@bank.example'' (financialSenders ex_rules None) \<and>
   (\<exists>c. getClassification (snd (classifyEmails ex_rules None [''m1'', ''m0'', ''m2''] ex_world)) ''m1''
          = Some c \<and> is_financial c = 0 \<and> confidence c = 1)"
proof -
  have h1: "''m1'' \<in> set [''m1'', ''m0'', ''m2'']" by simp
  have h2: "getClassification ex_world ''m1'' = None"
    by (simp add: getClassification_def ex_world_def)
  have h3: "getEmailsByIds ex_world [''m1''] =
              [ex_email ''m1'' ''promo@bank.example'' ''Offers for you'' None]"
    by (simp add: getEmailsByIds_def ex_world_def ex_email_def)
  have m1: "matchesSenderList ''promo@bank.example'' (ignoreSenders ex_rules None)" by code_simp
  have m2: "matchesSenderList ''promo@bank.example'' (financialSenders ex_rules None)" by code_simp
  have s: "sender (ex_email ''m1'' ''promo@bank.example'' ''Offers for you'' None) = ''promo@bank.example''"
    by (simp add: ex_email_def)
  from classifyEmails_tier_order[OF h1 h2 h3, of ex_rules None] m1 s
  have "\<exists>c. getClassification (snd (classifyEmails ex_rules None [''m1'', ''m0'', ''m2''] ex_world)) ''m1''
          = Some c \<and> is_financial c = 0 \<and> confidence c = 1"
    by auto
  with h1 h2 h3 m1 m2 show ?thesis by blast
qed


text \<open>
  The subject-keyword tier and the body-keyword tier write the same \<open>classified_by\<close>
  value: in the example store, \<open>m4\<close> is decided by the subject tier and \<open>m2\<close> by the
  body tier, and both rows carry \<open>rules_keyword\<close>.
\<close>

theorem classifyEmails_tag_counterexample:
  "first_match (tier_conditions ex_rules None
      (ex_email ''m4'' ''news@shop.example'' ''Your statement is ready'' None)) = 2 \<and>
   first_match (tier_conditions ex_rules None
      (ex_email ''m2'' ''news@shop.example'' ''Hello'' (Some ''Your EMI is due on Friday''))) = 3 \<and>
   map_option classified_by
     (getClassification (snd (classifyEmails ex_rules None [''m4'', ''m2''] ex_world)) ''m4'')
     = Some ''rules_keyword'' \<and>
   map_option classified_by
     (getClassification (snd (classifyEmails ex_rules None [''m4'', ''m2''] ex_world)) ''m2'')
     = Some ''rules_keyword''"
  by code_simp


text \<open>
  C6, as the code has it. Under the hypotheses of C1 the row written carries the tag of
  the tier that decided: \<open>rules_ignore\<close> for the ignore tier and only for it,
  \<open>rules_sender\<close> for the relevant-sender tier and only for it, \<open>rules_no_match\<close> for the
  no-match tier and only for it, and \<open>rules_keyword\<close> for both keyword tiers, which the
  confidence tells apart: 0.85 for the subject tier, 0.7 for the body tier.
\<close>

theorem classifyEmails_tag:
  assumes "i \<in> set ids"
    and "getClassification w i = None"
    and "getEmailsByIds w [i] = email # others"
  shows "\<exists>c. getClassification (snd (classifyEmails D U ids w)) i = Some c \<and>
             classified_by c = tier_tag (first_match (tier_conditions D U email)) \<and>
             (first_match (tier_conditions D U email) = 0 \<longleftrightarrow> classified_by c = ''rules_ignore'') \<and>
             (first_match (tier_conditions D U email) = 1 \<longleftrightarrow> classified_by c = ''rules_sender'') \<and>
             (first_match (tier_conditions D U email) = 2 \<longleftrightarrow>
                classified_by c = ''rules_keyword'' \<and> confidence c = 0.85) \<and>
             (first_match (tier_conditions D U email) = 3 \<longleftrightarrow>
                classified_by c = ''rules_keyword'' \<and> confidence c = 0.7) \<and>
             (first_match (tier_conditions D U email) = 4 \<longleftrightarrow> classified_by c = ''rules_no_match'')"
proof -
  from classifyEmails_fresh[OF assms, of D U]
  obtain t where
    c: "getClassification (snd (classifyEmails D U ids w)) i = Some (written_row i (decide D U email) t)"
    by blast
  have tag: "classified_by (written_row i (decide D U email) t) =
               tier_tag (first_match (tier_conditions D U email))"
    and conf: "confidence (written_row i (decide D U email) t) =
               snd (tier_verdict (first_match (tier_conditions D U email)))"
    by (simp_all add: written_row_def decide_tiers)
  show ?thesis
    apply (rule exI[of _ "written_row i (decide D U email) t"])
    apply (simp only: c tag conf)
    using tier_tag_cases[OF first_match_le[of D U email]]
    apply simp
    done
qed

theorem classifyEmails_tag_witness:
  "''m2'' \<in> set [''m4'', ''m2''] \<and>
   getClassification ex_world ''m2'' = None \<and>
   getEmailsByIds ex_world [''m2''] =
     [ex_email ''m2'' ''news@shop.example'' ''Hello'' (Some ''Your EMI is due on Friday'')] \<and>
   (\<exists>c. getClassification (snd (classifyEmails ex_rules None [''m4'', ''m2''] ex_world)) ''m2'' = Some c \<and>
        classified_by c = ''rules_keyword'' \<and> confidence c = 0.7)"
proof -
  have h1: "''m2'' \<in> set [''m4'', ''m2'']" by simp
  have h2: "getClassification ex_world ''m2'' = None"
    by (simp add: getClassification_def ex_world_def)
  have h3: "getEmailsByIds ex_world [''m2''] =
     [ex_email ''m2'' ''news@shop.example'' ''Hello'' (Some ''Your EMI is due on Friday'')]"
    by (simp add: getEmailsByIds_def ex_world_def ex_email_def)
  have k: "first_match (tier_conditions ex_rules None
      (ex_email ''m2'' ''news@shop.example'' ''Hello'' (Some ''Your EMI is due on Friday''))) = 3"
    by code_simp
  obtain c where
    c: "getClassification (snd (classifyEmails ex_rules None [''m4'', ''m2''] ex_world)) ''m2'' = Some c"
    and c3: "(first_match (tier_conditions ex_rules None
      (ex_email ''m2'' ''news@shop.example'' ''Hello'' (Some ''Your EMI is due on Friday''))) = 3) =
      (classified_by c = ''rules_keyword'' \<and> confidence c = 0.7)"
    using classifyEmails_tag[OF h1 h2 h3, of ex_rules None] by (elim exE conjE)
  from c3 k have "classified_by c = ''rules_keyword'' \<and> confidence c = 0.7" by (simp only: simp_thms)
  with c have "\<exists>c. getClassification (snd (classifyEmails ex_rules None [''m4'', ''m2''] ex_world)) ''m2'' = Some c \<and>
        classified_by c = ''rules_keyword'' \<and> confidence c = 0.7"
    by (intro exI[of _ c] conjI) (simp_all only: simp_thms)
  with h1 h2 h3 show ?thesis by (intro conjI)
qed

lemma countKeywordMatches_entries:
  "countKeywordMatches txt keywords =
     length (filter (\<lambda>kw. str_includes (toLowerCase txt) (toLowerCase kw)) keywords)"
  by (simp add: countKeywordMatches_def)

lemma distinct_hits_le: "distinct_hits txt keywords \<le> countKeywordMatches txt keywords"
  unfolding distinct_hits_def countKeywordMatches_entries
  by (metis length_map length_remdups_leq)

lemma distinct_hits_eq:
  assumes "distinct (map toLowerCase keywords)"
  shows "distinct_hits txt keywords = countKeywordMatches txt keywords"
proof -
  have "distinct (map toLowerCase
          (filter (\<lambda>kw. str_includes (toLowerCase txt) (toLowerCase kw)) keywords))"
    using assms by (rule distinct_map_filter)
  then show ?thesis
    by (simp add: distinct_hits_def countKeywordMatches_entries distinct_remdups_id)
qed

lemma decide_body:
  assumes "\<not> matchesSenderList (sender email) (ignoreSenders D U)"
    and "\<not> matchesSenderList (sender email) (financialSenders D U)"
    and "\<not> containsKeyword (subject email) (subjectKeywords D U)"
    and "body_text email = Some body" and "body \<noteq> []"
  shows "decide D U email =
           (if countKeywordMatches (substring body 0 1500) (bodyKeywords D U) \<ge> 2
            then (1, detectCategory (sender email) (subject email) (d_categories D), 0.7, ''rules_keyword'')
            else (0, None, 0.8, ''rules_no_match''))"
  using assms by (simp add: decide_def)

text \<open>
  C5. The claim: with exactly one distinct keyword hit in the first 1500 characters of the
  body, a message that reaches the body tier is not relevant, with confidence 0.80. The
  code comments the check with "require at least 2 matches", and counts the entries of
  the default list followed by the user's list without removing repeated keywords. With
  the user rules of the example the merged body keywords are \<open>emi\<close>, \<open>due\<close>, \<open>emi\<close>; the
  body of \<open>m5\<close> contains one distinct keyword, \<open>emi\<close>, once; and \<open>m5\<close> is classified
  relevant with confidence 0.7 by the body tier, where the claim gives not relevant.
\<close>

theorem classifyEmails_body_repeated_keyword:
  "bodyKeywords ex_rules (Some ex_user_rules) = [''emi'', ''due'', ''emi''] \<and>
   distinct_hits (substring ''No EMI this month'' 0 1500) (bodyKeywords ex_rules (Some ex_user_rules)) = 1 \<and>
   first_match (tier_conditions ex_rules (Some ex_user_rules)
      (ex_email ''m5'' ''news@shop.example'' ''Hello again'' (Some ''No EMI this month''))) = 3 \<and>
   map_option is_financial
     (getClassification (snd (classifyEmails ex_rules (Some ex_user_rules) [''m5''] ex_world)) ''m5'')
     = Some 1 \<and>
   map_option confidence
     (getClassification (snd (classifyEmails ex_rules (Some ex_user_rules) [''m5''] ex_world)) ''m5'')
     = Some 0.7"
  by code_simp

text \<open>
  Where the claim and the code agree. Take an id of the list that has no stored
  classification, whose email is stored, is matched by none of the first three tiers and
  has a non-empty body. \<open>countKeywordMatches\<close> counts the entries of the merged list that
  occur ignoring case in the first 1500 characters of the body. When no two entries of
  the merged list are equal ignoring case, that count is the number of distinct keywords
  hit, and two or more give relevant with confidence 0.7, fewer give not relevant with
  confidence 0.8.
\<close>

lemma classifyEmails_body_tier:
  assumes "i \<in> set ids"
    and "getClassification w i = None"
    and "getEmailsByIds w [i] = email # others"
    and "\<not> matchesSenderList (sender email) (ignoreSenders D U)"
    and "\<not> matchesSenderList (sender email) (financialSenders D U)"
    and "\<not> containsKeyword (subject email) (subjectKeywords D U)"
    and "body_text email = Some body" and "body \<noteq> []"
  shows "\<exists>c. getClassification (snd (classifyEmails D U ids w)) i = Some c \<and>
             (is_financial c, confidence c) =
               (if length (filter (\<lambda>kw. str_includes (toLowerCase (take 1500 body)) (toLowerCase kw))
                             (bodyKeywords D U)) \<ge> 2
                then (1, 0.7) else (0, 0.8)) \<and>
             (distinct (map toLowerCase (bodyKeywords D U)) \<longrightarrow>
                (is_financial c, confidence c) =
                  (if distinct_hits (take 1500 body) (bodyKeywords D U) \<ge> 2
                   then (1, 0.7) else (0, 0.8)))"
proof -
  from classifyEmails_fresh[OF assms(1-3), of D U]
  obtain t where
    c: "getClassification (snd (classifyEmails D U ids w)) i = Some (written_row i (decide D U email) t)"
    by blast
  have s: "substring body 0 1500 = take 1500 body" by (simp add: substring_def)
  have v: "(is_financial (written_row i (decide D U email) t),
            confidence (written_row i (decide D U email) t)) =
           (if countKeywordMatches (take 1500 body) (bodyKeywords D U) \<ge> 2
            then (1, 0.7) else (0, 0.8))"
    by (simp add: decide_body[OF assms(4-8)] written_row_def s)
  show ?thesis
    apply (rule exI[of _ "written_row i (decide D U email) t"])
    apply (simp only: c v)
    apply (simp add: distinct_hits_eq countKeywordMatches_entries)
    done
qed

lemma classifyEmails_body_tier_example:
  "(\<exists>c. getClassification (snd (classifyEmails ex_rules None [''m5'', ''m2''] ex_world)) ''m5'' = Some c \<and>
        (is_financial c, confidence c) = (0, 0.8)) \<and>
   (\<exists>c. getClassification (snd (classifyEmails ex_rules None [''m5'', ''m2''] ex_world)) ''m2'' = Some c \<and>
        (is_financial c, confidence c) = (1, 0.7))"
proof -
  let ?e5 = "ex_email ''m5'' ''news@shop.example'' ''Hello again'' (Some ''No EMI this month'')"
  let ?e2 = "ex_email ''m2'' ''news@shop.example'' ''Hello'' (Some ''Your EMI is due on Friday'')"
  have a1: "''m5'' \<in> set [''m5'', ''m2'']" and b1: "''m2'' \<in> set [''m5'', ''m2'']" by simp_all
  have a2: "getClassification ex_world ''m5'' = None" and b2: "getClassification ex_world ''m2'' = None"
    by (simp_all add: getClassification_def ex_world_def)
  have a3: "getEmailsByIds ex_world [''m5''] = ?e5 # []"
    and b3: "getEmailsByIds ex_world [''m2''] = ?e2 # []"
    by (simp_all add: getEmailsByIds_def ex_world_def ex_email_def)
  have a4: "\<not> matchesSenderList (sender ?e5) (ignoreSenders ex_rules None)"
    and a5: "\<not> matchesSenderList (sender ?e5) (financialSenders ex_rules None)"
    and a6: "\<not> containsKeyword (subject ?e5) (subjectKeywords ex_rules None)"
    and b4: "\<not> matchesSenderList (sender ?e2) (ignoreSenders ex_rules None)"
    and b5: "\<not> matchesSenderList (sender ?e2) (financialSenders ex_rules None)"
    and b6: "\<not> containsKeyword (subject ?e2) (subjectKeywords ex_rules None)"
    by code_simp+
  have a7: "body_text ?e5 = Some ''No EMI this month''" and a8: "''No EMI this month'' \<noteq> []"
    and b7: "body_text ?e2 = Some ''Your EMI is due on Friday''" and b8: "''Your EMI is due on Friday'' \<noteq> []"
    by (simp_all add: ex_email_def)
  have ka: "length (filter (\<lambda>kw. str_includes (toLowerCase (take 1500 ''No EMI this month'')) (toLowerCase kw))
                             (bodyKeywords ex_rules None)) = 1"
    by code_simp
  have kb: "length (filter (\<lambda>kw. str_includes (toLowerCase (take 1500 ''Your EMI is due on Friday'')) (toLowerCase kw))
                             (bodyKeywords ex_rules None)) = 2"
    by code_simp
  obtain c5 where
    c5: "getClassification (snd (classifyEmails ex_rules None [''m5'', ''m2''] ex_world)) ''m5'' = Some c5"
        "(is_financial c5, confidence c5) =
               (if length (filter (\<lambda>kw. str_includes (toLowerCase (take 1500 ''No EMI this month'')) (toLowerCase kw))
                             (bodyKeywords ex_rules None)) \<ge> 2
                then (1, 0.7) else (0, 0.8))"
    using classifyEmails_body_tier[OF a1 a2 a3 a4 a5 a6 a7 a8] by (elim exE conjE)
  obtain c2 where
    c2: "getClassification (snd (classifyEmails ex_rules None [''m5'', ''m2''] ex_world)) ''m2'' = Some c2"
        "(is_financial c2, confidence c2) =
               (if length (filter (\<lambda>kw. str_includes (toLowerCase (take 1500 ''Your EMI is due on Friday'')) (toLowerCase kw))
                             (bodyKeywords ex_rules None)) \<ge> 2
                then (1, 0.7) else (0, 0.8))"
    using classifyEmails_body_tier[OF b1 b2 b3 b4 b5 b6 b7 b8] by (elim exE conjE)
  have v5: "(is_financial c5, confidence c5) = (0, 0.8)" using c5(2) unfolding ka by simp
  have v2: "(is_financial c2, confidence c2) = (1, 0.7)" using c2(2) unfolding kb by simp
  show ?thesis
    apply (rule conjI)
     apply (rule exI[of _ c5])
     apply (simp only: c5(1) v5 simp_thms)
    apply (rule exI[of _ c2])
    apply (simp only: c2(1) v2 simp_thms)
    done
qed

lemma classifyStep_stored_result:
  assumes "getClassification w i = Some c"
  shows "classifyStep D U i (r, w) =
           (if is_financial c \<noteq> 0
            then r\<lparr>total := total r + 1, financialCount := financialCount r + 1,
                    financialEmailIds := financialEmailIds r @ [i]\<rparr>
            else r\<lparr>total := total r + 1\<rparr>, w)"
  using assms by (simp add: classifyStep_def Let_def)

lemma classifyLoop_all_stored:
  assumes "\<forall>j \<in> set ids. getClassification w j \<noteq> None"
  shows "snd (classifyLoop D U ids (r, w)) = w \<and>
         total (fst (classifyLoop D U ids (r, w))) = total r + length ids \<and>
         financialEmailIds (fst (classifyLoop D U ids (r, w))) =
           financialEmailIds r @
           filter (\<lambda>j. case getClassification w j of None \<Rightarrow> False | Some c \<Rightarrow> is_financial c \<noteq> 0) ids"
  using assms
proof (induction ids arbitrary: r)
  case Nil
  then show ?case by simp
next
  case (Cons i ids)
  then obtain c where c: "getClassification w i = Some c" by auto
  have rest: "\<forall>j \<in> set ids. getClassification w j \<noteq> None" using Cons.prems by simp
  show ?case
    using Cons.IH[OF rest] c by (simp add: classifyStep_stored_result)
qed

text \<open>
  C7. A stored classification survives \<open>classifyEmails\<close> unchanged, whatever list of ids
  is classified. When every id of the list has a stored classification, the call writes
  nothing at all: the store is the one it started from, each id is counted once in
  \<open>total\<close>, and the ids returned as financial are those whose stored row says so.
\<close>

theorem classifyEmails_idempotent:
  "(getClassification w i = Some c \<longrightarrow>
      getClassification (snd (classifyEmails D U ids w)) i = Some c) \<and>
   ((\<forall>j \<in> set ids. getClassification w j \<noteq> None) \<longrightarrow>
      snd (classifyEmails D U ids w) = w \<and>
      total (fst (classifyEmails D U ids w)) = length ids \<and>
      financialEmailIds (fst (classifyEmails D U ids w)) =
        filter (\<lambda>j. case getClassification w j of None \<Rightarrow> False | Some c \<Rightarrow> is_financial c \<noteq> 0) ids)"
proof (intro conjI impI)
  assume "getClassification w i = Some c"
  then show "getClassification (snd (classifyEmails D U ids w)) i = Some c"
    by (simp add: getClassification_def classifyEmails_def classifyLoop_keeps)
next
  assume a: "\<forall>j \<in> set ids. getClassification w j \<noteq> None"
  note l = classifyLoop_all_stored[OF a, of D U
      "\<lparr>total = 0, financialCount = 0, financialEmailIds = [], tokensUsed = 0\<rparr>"]
  from l show "snd (classifyEmails D U ids w) = w" by (simp add: classifyEmails_def)
  from l show "total (fst (classifyEmails D U ids w)) = length ids" by (simp add: classifyEmails_def)
  from l show "financialEmailIds (fst (classifyEmails D U ids w)) =
        filter (\<lambda>j. case getClassification w j of None \<Rightarrow> False | Some c \<Rightarrow> is_financial c \<noteq> 0) ids"
    by (simp add: classifyEmails_def)
qed

theorem classifyEmails_idempotent_witness:
  "getClassification ex_world_stored ''m1'' = Some ex_stored \<and>
   getClassification (snd (classifyEmails ex_rules None [''m1'', ''m2''] ex_world_stored)) ''m1''
     = Some ex_stored \<and>
   snd (classifyEmails ex_rules None [''m1'', ''m1''] ex_world_stored) = ex_world_stored \<and>
   total (fst (classifyEmails ex_rules None [''m1'', ''m1''] ex_world_stored)) = 2"
proof -
  have h: "getClassification ex_world_stored ''m1'' = Some ex_stored"
    by (simp add: getClassification_def ex_world_stored_def)
  have a: "\<forall>j \<in> set [''m1'', ''m1'']. getClassification ex_world_stored j \<noteq> None"
    using h by simp
  from classifyEmails_idempotent[of ex_world_stored "''m1''" ex_stored ex_rules None "[''m1'', ''m2'']"] h
  have k: "getClassification (snd (classifyEmails ex_rules None [''m1'', ''m2''] ex_world_stored)) ''m1''
     = Some ex_stored" by (simp only: simp_thms)
  from classifyEmails_idempotent[of ex_world_stored "''m1''" ex_stored ex_rules None "[''m1'', ''m1'']"] a
  have u: "snd (classifyEmails ex_rules None [''m1'', ''m1''] ex_world_stored) = ex_world_stored \<and>
      total (fst (classifyEmails ex_rules None [''m1'', ''m1''] ex_world_stored)) = length [''m1'', ''m1'']"
    by (simp only: simp_thms)
  from h k u show ?thesis by simp
qed

lemma getEmailsByIds_none:
  "i \<notin> email_row_id ` set (emails w) \<Longrightarrow> getEmailsByIds w [i] = []"
proof -
  assume "i \<notin> email_row_id ` set (emails w)"
  then have "filter (\<lambda>e. email_row_id e \<in> set [i]) (emails w) = []"
    by (auto simp: filter_empty_conv)
  then show ?thesis by (simp add: getEmailsByIds_def)
qed

lemma classifyStep_total:
  "total (fst (classifyStep D U i (r, w))) \<le> total r + 1"
proof (cases "getClassification w i")
  case (Some c)
  then show ?thesis by (simp add: classifyStep_stored)
next
  case None
  show ?thesis
  proof (cases "getEmailsByIds w [i]")
    case Nil
    with None show ?thesis by (simp add: classifyStep_missing)
  next
    case (Cons email others)
    with None show ?thesis by (simp add: classifyStep_fresh)
  qed
qed

lemma classifyLoop_total:
  "total (fst (classifyLoop D U ids (r, w))) \<le> total r + length ids"
proof (induction ids arbitrary: r w)
  case Nil
  then show ?case by simp
next
  case (Cons i ids)
  obtain r' w' where st: "classifyStep D U i (r, w) = (r', w')" by (cases "classifyStep D U i (r, w)")
  have "total r' \<le> total r + 1" using classifyStep_total[of D U i r w] st by simp
  with Cons.IH[of r' w'] st show ?case by simp
qed

lemma classifyLoop_skip:
  assumes "classifications w i = None" "i \<notin> email_row_id ` set (emails w)"
  shows "classifyLoop D U ids (r, w) = classifyLoop D U (removeAll i ids) (r, w)"
  using assms
proof (induction ids arbitrary: r w)
  case Nil
  then show ?case by simp
next
  case (Cons j ids)
  show ?case
  proof (cases "j = i")
    case True
    have "classifyStep D U i (r, w) = (r, w)"
      using Cons.prems by (simp add: classifyStep_missing getEmailsByIds_none getClassification_def)
    with True Cons.IH[OF Cons.prems] show ?thesis by simp
  next
    case False
    obtain r' w' where st: "classifyStep D U j (r, w) = (r', w')" by (cases "classifyStep D U j (r, w)")
    have c: "classifications w' i = None"
      using classifyStep_other[of i j D U r w] False st Cons.prems(1) by simp
    have e: "emails w' = emails w" using classifyStep_emails[of D U j r w] st by simp
    from Cons.IH[of w' r'] c e Cons.prems(2) False st show ?thesis by simp
  qed
qed

text \<open>
  C10. In a store that obeys the foreign key of \<open>classifications\<close>, an id without an email
  row is passed over: classifying a list gives the result and the store that classifying
  the list without that id gives, the id has no classification afterwards, and when the
  id is in the list the total returned is below the length of the list.
\<close>

theorem classifyEmails_skips_missing:
  assumes "foreign_keys_ok w"
    and "i \<notin> email_row_id ` set (emails w)"
  shows "classifyEmails D U ids w = classifyEmails D U (removeAll i ids) w \<and>
         getClassification (snd (classifyEmails D U ids w)) i = None \<and>
         (i \<in> set ids \<longrightarrow> total (fst (classifyEmails D U ids w)) < length ids)"
proof -
  let ?r0 = "\<lparr>total = 0, financialCount = 0, financialEmailIds = [], tokensUsed = 0\<rparr>"
  have c: "classifications w i = None"
    using assms by (auto simp: foreign_keys_ok_def)
  have eq: "classifyEmails D U ids w = classifyEmails D U (removeAll i ids) w"
    using classifyLoop_skip[OF c assms(2), of D U ids ?r0] by (simp add: classifyEmails_def)
  have "classifications (snd (classifyLoop D U (removeAll i ids) (?r0, w))) i = classifications w i"
    by (rule classifyLoop_untouched) simp
  with c eq have none: "getClassification (snd (classifyEmails D U ids w)) i = None"
    by (simp add: classifyEmails_def getClassification_def)
  have "total (fst (classifyLoop D U (removeAll i ids) (?r0, w))) \<le> total ?r0 + length (removeAll i ids)"
    by (rule classifyLoop_total)
  then have le: "total (fst (classifyEmails D U ids w)) \<le> length (removeAll i ids)"
    using eq by (simp add: classifyEmails_def)
  have "i \<in> set ids \<Longrightarrow> length (removeAll i ids) < length ids"
    by (simp add: removeAll_filter_not_eq length_filter_less)
  with le have "i \<in> set ids \<longrightarrow> total (fst (classifyEmails D U ids w)) < length ids" by auto
  with eq none show ?thesis by (intro conjI)
qed

theorem classifyEmails_skips_missing_witness:
  "foreign_keys_ok ex_world \<and> ''m0'' \<notin> email_row_id ` set (emails ex_world) \<and>
   ''m0'' \<in> set [''m1'', ''m0'', ''m2''] \<and>
   getClassification (snd (classifyEmails ex_rules None [''m1'', ''m0'', ''m2''] ex_world)) ''m0'' = None \<and>
   total (fst (classifyEmails ex_rules None [''m1'', ''m0'', ''m2''] ex_world)) < 3"
proof -
  have h1: "foreign_keys_ok ex_world" by (simp add: foreign_keys_ok_def ex_world_def)
  have h2: "''m0'' \<notin> email_row_id ` set (emails ex_world)"
    by (simp add: ex_world_def ex_email_def)
  have h3: "''m0'' \<in> set [''m1'', ''m0'', ''m2'']" by simp
  note t = classifyEmails_skips_missing[OF h1 h2, of ex_rules None "[''m1'', ''m0'', ''m2'']"]
  from t have n:
    "getClassification (snd (classifyEmails ex_rules None [''m1'', ''m0'', ''m2''] ex_world)) ''m0'' = None"
    by (elim conjE)
  from t have "''m0'' \<in> set [''m1'', ''m0'', ''m2''] \<longrightarrow>
    total (fst (classifyEmails ex_rules None [''m1'', ''m0'', ''m2''] ex_world)) < length [''m1'', ''m0'', ''m2'']"
    by (elim conjE)
  from this h3 have
    "total (fst (classifyEmails ex_rules None [''m1'', ''m0'', ''m2''] ex_world)) < length [''m1'', ''m0'', ''m2'']"
    by (rule mp)
  then have l: "total (fst (classifyEmails ex_rules None [''m1'', ''m0'', ''m2''] ex_world)) < 3"
    by simp
  from h1 h2 h3 n l show ?thesis by (intro conjI)
qed

section \<open>The pipeline\<close>

lemma fold_max_ge: "(a::nat) \<le> fold max xs a"
  by (induction xs arbitrary: a) (auto intro: order_trans[OF max.cobounded2])

lemma fold_max_mem: "x \<in> set xs \<Longrightarrow> (x::nat) \<le> fold max xs a"
proof (induction xs arbitrary: a)
  case Nil
  then show ?case by simp
next
  case (Cons y ys)
  show ?case
  proof (cases "x = y")
    case True
    have "y \<le> max y a" by simp
    also have "\<dots> \<le> fold max ys (max y a)" by (rule fold_max_ge)
    finally show ?thesis using True by simp
  next
    case False
    with Cons show ?thesis by simp
  qed
qed

lemma next_id_fresh: "x \<in> set ids \<Longrightarrow> x \<noteq> next_id ids"
  using fold_max_mem[of x ids 0] by (auto simp: next_id_def)

lemma run_id_set_column: "run_id (set_column u r) = run_id r"
  by (cases u) simp_all

lemma run_id_fold_set_column: "run_id (fold set_column ups r) = run_id r"
  by (induction ups arbitrary: r) (simp_all add: run_id_set_column)

lemma updatePipelineRun_last:
  assumes "pipeline_runs w = rows @ [r]" "run_id r = rid" "\<forall>x \<in> set rows. run_id x \<noteq> rid"
  shows "pipeline_runs (updatePipelineRun rid ups w) = rows @ [fold set_column ups r]"
proof -
  have "map (\<lambda>r. if run_id r = rid then fold set_column ups r else r) rows = rows"
    using assms(3) by (intro map_idI) simp
  with assms(1,2) show ?thesis by (simp add: updatePipelineRun_def)
qed

lemma updatePipelineRun_frame:
  "emails (updatePipelineRun rid ups w) = emails w"
  "classifications (updatePipelineRun rid ups w) = classifications w"
  "briefings (updatePipelineRun rid ups w) = briefings w"
  "wall (updatePipelineRun rid ups w) = wall w"
  "ticks (updatePipelineRun rid ups w) = ticks w"
  by (simp_all add: updatePipelineRun_def)

lemma insertEmail_frame:
  "classifications (insertEmail e w) = classifications w"
  "briefings (insertEmail e w) = briefings w"
  "pipeline_runs (insertEmail e w) = pipeline_runs w"
  "wall (insertEmail e w) = wall w"
  "ticks (insertEmail e w) = ticks w"
  by (simp_all add: insertEmail_def)

lemma fold_insertEmail_frame:
  "classifications (fold insertEmail es w) = classifications w \<and>
   briefings (fold insertEmail es w) = briefings w \<and>
   pipeline_runs (fold insertEmail es w) = pipeline_runs w \<and>
   wall (fold insertEmail es w) = wall w \<and>
   ticks (fold insertEmail es w) = ticks w"
  by (induction es arbitrary: w) (simp_all add: insertEmail_frame)

lemma classifyStep_frame:
  "briefings (snd (classifyStep D U i (r, w))) = briefings w \<and>
   pipeline_runs (snd (classifyStep D U i (r, w))) = pipeline_runs w \<and>
   wall (snd (classifyStep D U i (r, w))) = wall w"
proof (cases "getClassification w i")
  case (Some c)
  then show ?thesis by (simp add: classifyStep_stored)
next
  case None
  show ?thesis
  proof (cases "getEmailsByIds w [i]")
    case Nil
    with None show ?thesis by (simp add: classifyStep_missing)
  next
    case (Cons email others)
    with None show ?thesis
      by (simp add: classifyStep_fresh insertClassification_def)
  qed
qed

lemma classifyLoop_frame:
  "briefings (snd (classifyLoop D U ids (r, w))) = briefings w \<and>
   pipeline_runs (snd (classifyLoop D U ids (r, w))) = pipeline_runs w \<and>
   wall (snd (classifyLoop D U ids (r, w))) = wall w"
proof (induction ids arbitrary: r w)
  case Nil
  then show ?case by simp
next
  case (Cons i ids)
  obtain r' w' where st: "classifyStep D U i (r, w) = (r', w')" by (cases "classifyStep D U i (r, w)")
  with classifyStep_frame[of D U i r w] Cons.IH[of r' w'] show ?case by simp
qed

lemma classifyEmails_frame:
  "briefings (snd (classifyEmails D U ids w)) = briefings w"
  "pipeline_runs (snd (classifyEmails D U ids w)) = pipeline_runs w"
  "wall (snd (classifyEmails D U ids w)) = wall w"
  using classifyLoop_frame[of D U ids _ w] by (simp_all add: classifyEmails_def)

lemma generateBriefing_runs:
  "pipeline_runs (snd (generateBriefing written ids ps pe w)) = pipeline_runs w"
  by (simp add: generateBriefing_def Date_now_def insertBriefing_def Let_def
        split: sum.splits prod.splits)

lemma generateBriefing_failed:
  "written = Inl msg \<Longrightarrow>
   fst (generateBriefing written ids ps pe w) = Inl msg \<and>
   briefings (snd (generateBriefing written ids ps pe w)) = briefings w"
  by (simp add: generateBriefing_def Date_now_def)

lemma generateBriefing_written:
  "written = Inr (txt, used) \<Longrightarrow>
   fst (generateBriefing written ids ps pe w) =
     Inr \<lparr>briefingId = next_id (map b_id (briefings w)), br_content = txt, br_tokensUsed = used\<rparr> \<and>
   briefings (snd (generateBriefing written ids ps pe w)) =
     briefings w @
       [\<lparr>b_id = next_id (map b_id (briefings w)), b_generated_at = wall w (ticks w),
         b_period_start = ps, b_period_end = pe, b_email_count = length ids,
         b_content = txt, b_model_used = None, b_tokens_used = used,
         delivered = 0, delivered_via = None, delivered_at = None\<rparr>]"
  by (simp add: generateBriefing_def Date_now_def insertBriefing_def Let_def)

lemma markBriefing_runs:
  "pipeline_runs (markBriefingFailed b w) = pipeline_runs w"
  "pipeline_runs (markBriefingDelivered b ch w) = pipeline_runs w"
  by (simp_all add: markBriefingFailed_def markBriefingDelivered_def Date_now_def)

lemma set_column_period:
  "keeps_period u \<Longrightarrow> period_start (set_column u r) = period_start r \<and> period_end (set_column u r) = period_end r"
  by (cases u) (simp_all add: keeps_period_def)

lemma fold_set_column_period:
  "\<forall>u \<in> set ups. keeps_period u \<Longrightarrow>
   period_start (fold set_column ups r) = period_start r \<and> period_end (fold set_column ups r) = period_end r"
  by (induction ups arbitrary: r) (simp_all add: set_column_period)

lemma has_period_update:
  assumes "has_period rid rows ps pe (pipeline_runs w)" "\<forall>x \<in> set rows. run_id x \<noteq> rid"
    "\<forall>u \<in> set ups. keeps_period u"
  shows "has_period rid rows ps pe (pipeline_runs (updatePipelineRun rid ups w))"
proof -
  from assms(1) obtain r where r: "pipeline_runs w = rows @ [r]" "run_id r = rid"
    "period_start r = Some ps" "period_end r = Some pe" by (auto simp: has_period_def)
  have "pipeline_runs (updatePipelineRun rid ups w) = rows @ [fold set_column ups r]"
    by (rule updatePipelineRun_last[OF r(1,2) assms(2)])
  with r fold_set_column_period[OF assms(3), of r] show ?thesis
    by (simp add: has_period_def run_id_fold_set_column)
qed

lemma runStages_period:
  assumes "has_period rid rows ps pe (pipeline_runs w)" "\<forall>x \<in> set rows. run_id x \<noteq> rid"
  shows "has_period rid rows ps pe (pipeline_runs (snd (runStages env rid ps' pe' w)))"
proof -
  note hp = has_period_update[OF _ assms(2)]
  have k: "\<And>ups. \<forall>u\<in>set ups. keeps_period u \<Longrightarrow> (\<forall>u\<in>set ups. keeps_period u) = True" by simp
  show ?thesis
    unfolding runStages_def run_failed_def Date_now_def Let_def
    by (auto simp: case_prod_beta fold_insertEmail_frame classifyEmails_frame
        generateBriefing_runs markBriefing_runs keeps_period_def assms(1)
        intro!: hp split: sum.splits option.splits)
qed

lemma finished_later_asym: "finished_later a b \<Longrightarrow> \<not> finished_later b a"
  by (auto simp: finished_later_def split: option.splits)

lemma latest_run_Some_ne: "latest_run xs (Some b) \<noteq> None"
  by (induction xs arbitrary: b) simp_all

lemma latest_run_None_iff: "latest_run xs None = None \<longleftrightarrow> xs = []"
  by (cases xs) (simp_all add: latest_run_Some_ne)

lemma latest_run_strict:
  assumes "l \<in> set xs \<or> best = Some l"
    and "\<forall>x \<in> set xs. x \<noteq> l \<longrightarrow> finished_later l x"
    and "\<forall>b. best = Some b \<and> b \<noteq> l \<longrightarrow> finished_later l b"
  shows "latest_run xs best = Some l"
  using assms
proof (induction xs arbitrary: best)
  case Nil
  then show ?case by simp
next
  case (Cons x xs)
  show ?case
  proof (cases best)
    case None
    have "latest_run xs (Some x) = Some l"
      using Cons.prems None by (intro Cons.IH) auto
    with None show ?thesis by simp
  next
    case (Some b)
    let ?nb = "if finished_later x b then Some x else Some b"
    have "latest_run xs ?nb = Some l"
    proof (intro Cons.IH)
      show "l \<in> set xs \<or> ?nb = Some l"
      proof (cases "l \<in> set xs")
        case True then show ?thesis by simp
      next
        case False
        with Cons.prems(1) Some have d: "l = x \<or> l = b" by auto
        show ?thesis
        proof (cases "x = b")
          case True with d show ?thesis by simp
        next
          case xb: False
          show ?thesis
          proof (cases "l = x")
            case True
            with xb Cons.prems(3) Some have "finished_later x b" by auto
            with True show ?thesis by simp
          next
            case False
            with d have lb: "l = b" by simp
            with Cons.prems(2) xb have "finished_later b x" by auto
            then have "\<not> finished_later x b" by (rule finished_later_asym)
            with lb show ?thesis by simp
          qed
        qed
      qed
      show "\<forall>x \<in> set xs. x \<noteq> l \<longrightarrow> finished_later l x" using Cons.prems(2) by simp
      show "\<forall>b. ?nb = Some b \<and> b \<noteq> l \<longrightarrow> finished_later l b"
        using Cons.prems(2,3) Some by auto
    qed
    with Some show ?thesis by simp
  qed
qed

lemma getLastSuccessfulRun_None_iff:
  "getLastSuccessfulRun w = None \<longleftrightarrow>
   (\<forall>x \<in> set (pipeline_runs w). status x \<noteq> ''success'' \<and> status x \<noteq> ''skipped'')"
  by (simp add: getLastSuccessfulRun_def latest_run_None_iff filter_empty_conv)

lemma getLastSuccessfulRun_latest:
  assumes "l \<in> set (pipeline_runs w)" "status l = ''success'' \<or> status l = ''skipped''"
    and "\<forall>x \<in> set (pipeline_runs w).
           (status x = ''success'' \<or> status x = ''skipped'') \<and> x \<noteq> l \<longrightarrow> finished_later l x"
  shows "getLastSuccessfulRun w = Some l"
  unfolding getLastSuccessfulRun_def
  using assms by (intro latest_run_strict) auto

lemma getLastSuccessfulRun_cong:
  "pipeline_runs v = pipeline_runs w \<Longrightarrow> getLastSuccessfulRun v = getLastSuccessfulRun w"
  by (simp add: getLastSuccessfulRun_def)

lemma getLastSuccessfulRun_running:
  "pipeline_runs v = pipeline_runs w @ [r] \<Longrightarrow> status r = ''running'' \<Longrightarrow>
   getLastSuccessfulRun v = getLastSuccessfulRun w"
  by (simp add: getLastSuccessfulRun_def)

lemma runPipeline_split:
  "\<exists>v r0.
     pipeline_runs v = pipeline_runs w @ [r0] \<and>
     run_id r0 = next_id (map run_id (pipeline_runs w)) \<and>
     emails v = emails w \<and> classifications v = classifications w \<and>
     briefings v = briefings w \<and> wall v = wall w \<and>
     (runPipeline env trg w =
        (None, updatePipelineRun (next_id (map run_id (pipeline_runs w)))
                 [Set_status ''skipped'', Set_finished_at (wall w (Suc (ticks w))),
                  Set_period_start
                    (case getLastSuccessfulRun w of
                       None \<Rightarrow> wall w (Suc (ticks w)) - initialFetchDays env * 86400000
                     | Some l \<Rightarrow>
                         (case period_end l of
                            None \<Rightarrow> wall w (Suc (ticks w)) - initialFetchDays env * 86400000
                          | Some T \<Rightarrow>
                              if T = 0 then wall w (Suc (ticks w)) - initialFetchDays env * 86400000
                              else T)),
                  Set_period_end (wall w (Suc (ticks w)))] v) \<or>
      runPipeline env trg w =
        runStages env (next_id (map run_id (pipeline_runs w)))
          (case getLastSuccessfulRun w of
             None \<Rightarrow> wall w (Suc (ticks w)) - initialFetchDays env * 86400000
           | Some l \<Rightarrow>
               (case period_end l of
                  None \<Rightarrow> wall w (Suc (ticks w)) - initialFetchDays env * 86400000
                | Some T \<Rightarrow>
                    if T = 0 then wall w (Suc (ticks w)) - initialFetchDays env * 86400000
                    else T))
          (wall w (Suc (ticks w)))
          (updatePipelineRun (next_id (map run_id (pipeline_runs w)))
             [Set_period_start
                (case getLastSuccessfulRun w of
                   None \<Rightarrow> wall w (Suc (ticks w)) - initialFetchDays env * 86400000
                 | Some l \<Rightarrow>
                     (case period_end l of
                        None \<Rightarrow> wall w (Suc (ticks w)) - initialFetchDays env * 86400000
                      | Some T \<Rightarrow>
                          if T = 0 then wall w (Suc (ticks w)) - initialFetchDays env * 86400000
                          else T)),
              Set_period_end (wall w (Suc (ticks w)))] v))"
proof -
  let ?rid = "next_id (map run_id (pipeline_runs w))"
  let ?rows = "pipeline_runs w"
  let ?now = "wall w (Suc (ticks w))"
  let ?r0 = "\<lparr>run_id = ?rid, started_at = wall w (ticks w), finished_at = None, status = ''running'',
                 run_trigger = trg, period_start = None, period_end = None,
                 emails_fetched = 0, emails_classified = 0, emails_financial = 0,
                 tokens_used = 0, briefing_id = None, error = None\<rparr>"
  let ?w1 = "w\<lparr>ticks := Suc (ticks w), pipeline_runs := ?rows @ [?r0]\<rparr>"
  have cp: "createPipelineRun trg w = (?rid, ?w1)"
    by (simp add: createPipelineRun_def Date_now_def Let_def)
  have lr: "getLastSuccessfulRun ?w1 = getLastSuccessfulRun w"
    by (rule getLastSuccessfulRun_running[where r = ?r0]) simp_all
  define P where "P = (case getLastSuccessfulRun w of
        None \<Rightarrow> ?now - initialFetchDays env * 86400000
      | Some l \<Rightarrow>
          (case period_end l of
             None \<Rightarrow> ?now - initialFetchDays env * 86400000
           | Some T \<Rightarrow> if T = 0 then ?now - initialFetchDays env * 86400000 else T))"
  have Pcode: "(case (case getLastSuccessfulRun w of None \<Rightarrow> None | Some r \<Rightarrow> period_end r) of
               Some pe \<Rightarrow> if pe \<noteq> 0 then pe else ?now - initialFetchDays env * 86400000
             | None \<Rightarrow> ?now - initialFetchDays env * 86400000) = P"
    by (simp add: P_def split: option.splits)
  define W3 where "W3 = snd (Date_now (snd (Date_now ?w1)))"
  define RT where "RT =
     (case (case getLastSuccessfulRun w of None \<Rightarrow> None | Some r \<Rightarrow> finished_at r) of
        Some fin \<Rightarrow>
          if fin \<noteq> 0
          then (toDateString env fin = toDateString env (fst (Date_now W3)) \<and> trg = scheduled,
                snd (Date_now W3))
          else (False, W3)
      | None \<Rightarrow> (False, W3))"
  have rt: "pipeline_runs (snd RT) = ?rows @ [?r0]" "emails (snd RT) = emails w"
    "classifications (snd RT) = classifications w" "briefings (snd RT) = briefings w"
    "wall (snd RT) = wall w"
    by (simp_all add: RT_def W3_def Date_now_def split: option.splits)
  have now: "fst (Date_now ?w1) = ?now" by (simp add: Date_now_def)
  have eq: "runPipeline env trg w =
      (if fst RT then
         (None, updatePipelineRun ?rid
                  [Set_status ''skipped'', Set_finished_at ?now, Set_period_start P, Set_period_end ?now]
                  (snd RT))
       else runStages env ?rid P ?now
              (updatePipelineRun ?rid [Set_period_start P, Set_period_end ?now] (snd RT)))"
    unfolding runPipeline_def cp
    by (simp add: Let_def case_prod_beta lr now Pcode RT_def W3_def cong: option.case_cong if_cong)
  have "run_id ?r0 = ?rid" by simp
  with rt eq show ?thesis
    unfolding P_def[symmetric]
    apply (intro exI[of _ "snd RT"] exI[of _ ?r0])
    apply (cases "fst RT")
     apply simp_all
    done
qed

lemma runPipeline_has_period:
  "has_period (next_id (map run_id (pipeline_runs w))) (pipeline_runs w)
     (case getLastSuccessfulRun w of
        None \<Rightarrow> wall w (Suc (ticks w)) - initialFetchDays env * 86400000
      | Some l \<Rightarrow>
          (case period_end l of
             None \<Rightarrow> wall w (Suc (ticks w)) - initialFetchDays env * 86400000
           | Some T \<Rightarrow> if T = 0 then wall w (Suc (ticks w)) - initialFetchDays env * 86400000 else T))
     (wall w (Suc (ticks w)))
     (pipeline_runs (snd (runPipeline env trg w)))"
proof -
  let ?rid = "next_id (map run_id (pipeline_runs w))"
  let ?rows = "pipeline_runs w"
  let ?now = "wall w (Suc (ticks w))"
  define P where "P = (case getLastSuccessfulRun w of
        None \<Rightarrow> ?now - initialFetchDays env * 86400000
      | Some l \<Rightarrow>
          (case period_end l of
             None \<Rightarrow> ?now - initialFetchDays env * 86400000
           | Some T \<Rightarrow> if T = 0 then ?now - initialFetchDays env * 86400000 else T))"
  have fresh: "\<forall>x \<in> set ?rows. run_id x \<noteq> ?rid"
    using next_id_fresh[of _ "map run_id ?rows"] by auto
  from runPipeline_split[of w env trg] obtain v r0 where
    v: "pipeline_runs v = ?rows @ [r0]" "run_id r0 = ?rid"
    and alt: "runPipeline env trg w =
        (None, updatePipelineRun ?rid
                 [Set_status ''skipped'', Set_finished_at ?now, Set_period_start P, Set_period_end ?now] v) \<or>
      runPipeline env trg w =
        runStages env ?rid P ?now
          (updatePipelineRun ?rid [Set_period_start P, Set_period_end ?now] v)"
    unfolding P_def[symmetric] by blast
  have upd: "\<And>ups. pipeline_runs (updatePipelineRun ?rid ups v) = ?rows @ [fold set_column ups r0]"
    by (rule updatePipelineRun_last[OF v fresh])
  from alt show ?thesis
    unfolding P_def[symmetric]
  proof
    assume "runPipeline env trg w =
        (None, updatePipelineRun ?rid
                 [Set_status ''skipped'', Set_finished_at ?now, Set_period_start P, Set_period_end ?now] v)"
    then show "has_period ?rid ?rows P ?now (pipeline_runs (snd (runPipeline env trg w)))"
      by (simp add: upd has_period_def v(2))
  next
    assume a: "runPipeline env trg w =
        runStages env ?rid P ?now
          (updatePipelineRun ?rid [Set_period_start P, Set_period_end ?now] v)"
    have "has_period ?rid ?rows P ?now
        (pipeline_runs (snd (runStages env ?rid P ?now
            (updatePipelineRun ?rid [Set_period_start P, Set_period_end ?now] v))))"
      by (rule runStages_period[OF _ fresh]) (simp add: upd has_period_def v(2))
    with a show "has_period ?rid ?rows P ?now (pipeline_runs (snd (runPipeline env trg w)))"
      by simp
  qed
qed

text \<open>
  What \<open>runPipeline\<close> computes as the period. It adds one row to \<open>pipeline_runs\<close>,
  whatever the trigger and however the run ends. With \<open>now\<close> the clock reading taken
  right after the row is created (the second reading of the run): the period end of the
  row is \<open>now\<close>; the period start is the period end of the row \<open>getLastSuccessfulRun\<close>
  returns, if it returns one and that period end is set and not 0, and otherwise \<open>now\<close>
  less \<open>initialFetchDays\<close> days. \<open>getLastSuccessfulRun\<close> returns no row exactly when no
  earlier run has status \<open>success\<close> or \<open>skipped\<close>, and it returns the run with one of
  these two statuses that finished after all the others.
\<close>

lemma runPipeline_period:
  "\<exists>r. pipeline_runs (snd (runPipeline env trg w)) = pipeline_runs w @ [r] \<and>
        period_end r = Some (wall w (Suc (ticks w))) \<and>
        period_start r =
          Some (case getLastSuccessfulRun w of
                  None \<Rightarrow> wall w (Suc (ticks w)) - initialFetchDays env * 86400000
                | Some l \<Rightarrow>
                    (case period_end l of
                       None \<Rightarrow> wall w (Suc (ticks w)) - initialFetchDays env * 86400000
                     | Some T \<Rightarrow>
                         if T = 0 then wall w (Suc (ticks w)) - initialFetchDays env * 86400000
                         else T)) \<and>
        (getLastSuccessfulRun w = None \<longleftrightarrow>
           (\<forall>x \<in> set (pipeline_runs w). status x \<noteq> ''success'' \<and> status x \<noteq> ''skipped'')) \<and>
        (\<forall>l. l \<in> set (pipeline_runs w) \<and>
             (status l = ''success'' \<or> status l = ''skipped'') \<and>
             (\<forall>x \<in> set (pipeline_runs w).
                (status x = ''success'' \<or> status x = ''skipped'') \<and> x \<noteq> l \<longrightarrow>
                finished_later l x) \<longrightarrow>
             getLastSuccessfulRun w = Some l)"
proof -
  from runPipeline_has_period[of w env trg] obtain r where
    r: "pipeline_runs (snd (runPipeline env trg w)) = pipeline_runs w @ [r]"
       "period_end r = Some (wall w (Suc (ticks w)))"
       "period_start r =
          Some (case getLastSuccessfulRun w of
                  None \<Rightarrow> wall w (Suc (ticks w)) - initialFetchDays env * 86400000
                | Some l \<Rightarrow>
                    (case period_end l of
                       None \<Rightarrow> wall w (Suc (ticks w)) - initialFetchDays env * 86400000
                     | Some T \<Rightarrow>
                         if T = 0 then wall w (Suc (ticks w)) - initialFetchDays env * 86400000
                         else T))"
    unfolding has_period_def by blast
  have latest: "\<forall>l. l \<in> set (pipeline_runs w) \<and>
             (status l = ''success'' \<or> status l = ''skipped'') \<and>
             (\<forall>x \<in> set (pipeline_runs w).
                (status x = ''success'' \<or> status x = ''skipped'') \<and> x \<noteq> l \<longrightarrow>
                finished_later l x) \<longrightarrow>
             getLastSuccessfulRun w = Some l"
    using getLastSuccessfulRun_latest[of _ w] by blast
  show ?thesis
    apply (rule exI[of _ r])
    apply (intro conjI)
        apply (rule r(1))
       apply (rule r(2))
      apply (rule r(3))
     apply (rule getLastSuccessfulRun_None_iff)
    apply (rule latest)
    done
qed

lemma runPipeline_period_example:
  "\<exists>r. pipeline_runs (snd (runPipeline ex_env manual ex_world_skipped)) = [ex_skipped_run, r] \<and>
        period_end r = Some 1700000100001 \<and> period_start r = Some 1699990000000"
proof -
  have rs: "pipeline_runs ex_world_skipped = [ex_skipped_run]"
    by (simp add: ex_world_skipped_def)
  have st: "status ex_skipped_run = ''skipped''" and pe: "period_end ex_skipped_run = Some 1699990000000"
    by (simp_all add: ex_skipped_run_def)
  have now: "wall ex_world_skipped (Suc (ticks ex_world_skipped)) = 1700000100001"
    by (simp add: ex_world_skipped_def ex_world_def)
  obtain r where
    r: "pipeline_runs (snd (runPipeline ex_env manual ex_world_skipped)) =
          pipeline_runs ex_world_skipped @ [r]"
       "period_end r = Some (wall ex_world_skipped (Suc (ticks ex_world_skipped)))"
       "period_start r =
          Some (case getLastSuccessfulRun ex_world_skipped of
                  None \<Rightarrow> wall ex_world_skipped (Suc (ticks ex_world_skipped)) -
                           initialFetchDays ex_env * 86400000
                | Some l \<Rightarrow>
                    (case period_end l of
                       None \<Rightarrow> wall ex_world_skipped (Suc (ticks ex_world_skipped)) -
                                initialFetchDays ex_env * 86400000
                     | Some T \<Rightarrow>
                         if T = 0 then wall ex_world_skipped (Suc (ticks ex_world_skipped)) -
                                       initialFetchDays ex_env * 86400000
                         else T))"
       "\<forall>l. l \<in> set (pipeline_runs ex_world_skipped) \<and>
             (status l = ''success'' \<or> status l = ''skipped'') \<and>
             (\<forall>x \<in> set (pipeline_runs ex_world_skipped).
                (status x = ''success'' \<or> status x = ''skipped'') \<and> x \<noteq> l \<longrightarrow>
                finished_later l x) \<longrightarrow>
             getLastSuccessfulRun ex_world_skipped = Some l"
    using runPipeline_period[of ex_env manual ex_world_skipped] by (elim exE conjE)
  have "ex_skipped_run \<in> set (pipeline_runs ex_world_skipped) \<and>
        (status ex_skipped_run = ''success'' \<or> status ex_skipped_run = ''skipped'') \<and>
        (\<forall>x \<in> set (pipeline_runs ex_world_skipped).
           (status x = ''success'' \<or> status x = ''skipped'') \<and> x \<noteq> ex_skipped_run \<longrightarrow>
           finished_later ex_skipped_run x)"
    by (simp add: rs st)
  with r(4) have l: "getLastSuccessfulRun ex_world_skipped = Some ex_skipped_run"
    by (elim allE[of _ ex_skipped_run] impE)
  have ps: "period_start r = Some 1699990000000"
    unfolding r(3) l by (simp add: pe)
  show ?thesis
    apply (rule exI[of _ r])
    apply (simp only: r(1) rs r(2) now ps)
    apply simp
    done
qed

text \<open>
  C2. The claim: a run that follows a successful run ending at \<open>T\<close> starts its period
  at \<open>T\<close> exactly, with no gap. The code says "Resume from where we left off", and
  breaks it when a scheduled run is skipped because a run finished on the same day: the
  skipped run executes no stage, yet is stored with the clock reading as its period end,
  and \<open>getLastSuccessfulRun\<close> returns it to the run after. In the example the last
  successful period ended at 1700000040000 and the email \<open>m8\<close> was received at
  1700000060000. The scheduled run of the same day is skipped with period end
  1700000100001. The next run starts its period there and not at 1700000040000; it
  fetches \<open>m8\<close> and classifies it financial, but \<open>m8\<close> is before the period start: no
  digest is written, where the period from 1700000040000 holds \<open>m8\<close>.
\<close>

theorem runPipeline_gap:
  "map status (pipeline_runs ex_world_success) = [''success''] \<and>
   map period_end (pipeline_runs ex_world_success) = [Some 1700000040000] \<and>
   map status (pipeline_runs ex_after_skip) = [''success'', ''skipped''] \<and>
   map period_end (pipeline_runs ex_after_skip) = [Some 1700000040000, Some 1700000100001] \<and>
   map period_start (pipeline_runs ex_after_next) =
     [Some 1699990000000, Some 1700000040000, Some 1700000100001] \<and>
   received_at ex_mail_between = 1700000060000 \<and>
   map_option is_financial (getClassification ex_after_next ''m8'') = Some 1 \<and>
   getFinancialEmailIdsSince ex_after_next 1700000040000 = [''m8''] \<and>
   getFinancialEmailIdsSince ex_after_next 1700000100001 = [] \<and>
   briefings ex_after_next = []"
  by code_simp

lemma classifyStep_fresh_result:
  assumes "getClassification w i = None" "getEmailsByIds w [i] = email # others"
  shows "fst (classifyStep D U i (r, w)) =
           (if fst (decide D U email) \<noteq> 0
            then r\<lparr>total := total r + 1, financialCount := financialCount r + 1,
                    financialEmailIds := financialEmailIds r @ [i]\<rparr>
            else r\<lparr>total := total r + 1\<rparr>)"
  using assms
  by (simp add: classifyStep_def Let_def decide_def Date_now_def split: option.splits)

lemma same_mail_refl: "same_mail w w"
  by (simp add: same_mail_def)

lemma same_mail_None:
  "same_mail v w \<Longrightarrow> classifications v k = None \<longleftrightarrow> classifications w k = None"
  unfolding same_mail_def by (metis option.map_disc_iff)

lemma classifyStep_same_mail:
  assumes "same_mail v w"
  shows "fst (classifyStep D U i (r, v)) = fst (classifyStep D U i (r, w)) \<and>
         same_mail (snd (classifyStep D U i (r, v))) (snd (classifyStep D U i (r, w)))"
proof (cases "classifications v i")
  case (Some c)
  with assms obtain c' where c': "classifications w i = Some c'" "is_financial c' = is_financial c"
    unfolding same_mail_def by (metis option.simps(9) option.map_disc_iff not_Some_eq option.inject)
  from Some c' assms show ?thesis
    by (simp add: classifyStep_stored_result getClassification_def)
next
  case None
  with assms have nw: "classifications w i = None" by (simp add: same_mail_None)
  have ge: "getEmailsByIds v [i] = getEmailsByIds w [i]"
    using assms by (simp add: same_mail_def getEmailsByIds_def)
  show ?thesis
  proof (cases "getEmailsByIds w [i]")
    case Nil
    with None nw ge assms show ?thesis
      by (simp add: classifyStep_missing getClassification_def)
  next
    case (Cons email others)
    with None nw ge assms show ?thesis
      by (simp add: classifyStep_fresh classifyStep_fresh_result getClassification_def
            insertClassification_def written_row_def same_mail_def)
  qed
qed

lemma classifyLoop_same_mail:
  assumes "same_mail v w"
  shows "fst (classifyLoop D U ids (r, v)) = fst (classifyLoop D U ids (r, w))"
  using assms
proof (induction ids arbitrary: r v w)
  case Nil
  then show ?case by simp
next
  case (Cons i ids)
  obtain r1 v1 where sv: "classifyStep D U i (r, v) = (r1, v1)" by (cases "classifyStep D U i (r, v)")
  obtain r2 w1 where sw: "classifyStep D U i (r, w) = (r2, w1)" by (cases "classifyStep D U i (r, w)")
  from classifyStep_same_mail[OF Cons.prems, of D U i r] sv sw
  have "r1 = r2" "same_mail v1 w1" by simp_all
  with Cons.IH[of v1 w1 r1] sv sw show ?case by simp
qed

lemma getUnclassifiedEmailIds_same_mail:
  assumes "same_mail v w"
  shows "getUnclassifiedEmailIds v = getUnclassifiedEmailIds w"
proof -
  have e: "emails v = emails w" using assms by (simp add: same_mail_def)
  have "filter (\<lambda>e. classifications v (email_row_id e) = None) (emails w) =
        filter (\<lambda>e. classifications w (email_row_id e) = None) (emails w)"
    by (rule filter_cong[OF refl]) (simp add: same_mail_None[OF assms])
  then show ?thesis by (simp only: getUnclassifiedEmailIds_def e)
qed

lemma classifyEmails_same_mail:
  assumes "same_mail v w"
  shows "fst (classifyEmails D U (getUnclassifiedEmailIds v) v) =
         fst (classifyEmails D U (getUnclassifiedEmailIds w) w)"
  using classifyLoop_same_mail[OF assms] getUnclassifiedEmailIds_same_mail[OF assms]
  by (simp add: classifyEmails_def)

lemma fold_insertEmail_emails:
  "emails v = emails w \<Longrightarrow> emails (fold insertEmail es v) = emails (fold insertEmail es w)"
proof (induction es arbitrary: v w)
  case Nil
  then show ?case by simp
next
  case (Cons e es)
  have "emails (insertEmail e v) = emails (insertEmail e w)"
    using Cons.prems by (simp add: insertEmail_def)
  from Cons.IH[OF this] show ?case by simp
qed

lemma updatePipelineRun_runs:
  "pipeline_runs (updatePipelineRun rid ups w) =
     map (\<lambda>r. if run_id r = rid then fold set_column ups r else r) (pipeline_runs w)"
  by (simp add: updatePipelineRun_def)

lemma markBriefingFailed_frame:
  "briefings (markBriefingFailed b w) =
     map (\<lambda>x. if b_id x = b then x\<lparr>delivered := - 1\<rparr> else x) (briefings w)"
  "ticks (markBriefingFailed b w) = ticks w"
  "wall (markBriefingFailed b w) = wall w"
  by (simp_all add: markBriefingFailed_def)

lemma run_failed_frame:
  "briefings (snd (run_failed rid tk m w)) = briefings w"
  by (simp add: run_failed_def Date_now_def updatePipelineRun_frame)

lemma runStages_delivery_failed:
  assumes runs: "pipeline_runs v = rows @ [r1]" "run_id r1 = rid" "\<forall>x \<in> set rows. run_id x \<noteq> rid"
    and send: "send_outcome env = Some msg"
    and gen: "briefings (snd (runStages env rid ps pe v)) \<noteq> briefings v"
  shows "fst (runStages env rid ps pe v) = None \<and>
         (\<exists>r b txt used refreshTokens fetched.
            briefing_written env = Inr (txt, used) \<and>
            refresh_outcome env = Inr refreshTokens \<and>
            fetch_outcome env = Inr fetched \<and>
            pipeline_runs (snd (runStages env rid ps pe v)) = rows @ [r] \<and>
            briefings (snd (runStages env rid ps pe v)) = briefings v @ [b] \<and>
            status r = ''partial'' \<and> error r = Some (''Delivery failed: '' @ msg) \<and>
            briefing_id r = Some (b_id b) \<and> b_content b = txt \<and> b_tokens_used b = used \<and>
            delivered b = - 1 \<and> delivered_via b = None \<and> delivered_at b = None \<and>
            tokens_used r = refreshTokens + used \<and> emails_fetched r = fetched \<and>
            emails_classified r =
              total (fst (classifyEmails (env_defaultRules env) (env_userRules env)
                           (getUnclassifiedEmailIds (fold insertEmail (fetched_rows env) v))
                           (fold insertEmail (fetched_rows env) v))) \<and>
            emails_financial r =
              financialCount (fst (classifyEmails (env_defaultRules env) (env_userRules env)
                           (getUnclassifiedEmailIds (fold insertEmail (fetched_rows env) v))
                           (fold insertEmail (fetched_rows env) v))))"
proof -
  define v1 where "v1 = fold insertEmail (fetched_rows env) v"
  have f1: "briefings v1 = briefings v" "pipeline_runs v1 = pipeline_runs v"
    by (simp_all add: v1_def fold_insertEmail_frame)
  obtain fetched where fo: "fetch_outcome env = Inr fetched"
  proof (cases "fetch_outcome env")
    case (Inl m)
    then have "briefings (snd (runStages env rid ps pe v)) = briefings v"
      by (simp add: runStages_def Let_def run_failed_frame fold_insertEmail_frame)
    with gen show ?thesis by simp
  qed
  define v2 where "v2 = updatePipelineRun rid [Set_emails_fetched fetched] v1"
  have f2: "briefings v2 = briefings v"
    by (simp add: v2_def updatePipelineRun_frame f1)
  obtain refreshTokens where ro: "refresh_outcome env = Inr refreshTokens"
  proof (cases "refresh_outcome env")
    case (Inl m)
    then have "briefings (snd (runStages env rid ps pe v)) = briefings v"
      using fo
      by (simp add: runStages_def Let_def run_failed_frame fold_insertEmail_frame
            updatePipelineRun_frame)
    with gen show ?thesis by simp
  qed
  define cr where "cr = fst (classifyEmails (env_defaultRules env) (env_userRules env)
                               (getUnclassifiedEmailIds v2) v2)"
  define v3 where "v3 = snd (classifyEmails (env_defaultRules env) (env_userRules env)
                               (getUnclassifiedEmailIds v2) v2)"
  define v4 where "v4 = updatePipelineRun rid
                          [Set_emails_classified (total cr), Set_emails_financial (financialCount cr)] v3"
  have f4: "briefings v4 = briefings v"
    by (simp add: v4_def v3_def updatePipelineRun_frame classifyEmails_frame f2)
  define fin where "fin = getFinancialEmailIdsSince v4 ps"
  have rest: "runStages env rid ps pe v =
     (if length fin = 0 then
        (let (t, w) = Date_now v4
         in (None, updatePipelineRun rid
               [Set_status ''skipped'', Set_finished_at t, Set_tokens_used (0 + refreshTokens)] w))
      else
        (case generateBriefing (briefing_written env) fin ps pe v4 of
           (Inl m, w) \<Rightarrow> run_failed rid (0 + refreshTokens) m w
         | (Inr briefingResult, w) \<Rightarrow>
             (let totalTokens = 0 + refreshTokens + br_tokensUsed briefingResult;
                  w = updatePipelineRun rid
                        [Set_tokens_used totalTokens, Set_briefing_id (briefingId briefingResult)] w;
                  w = markBriefingFailed (briefingId briefingResult) w;
                  (t, w) = Date_now w
              in (None, updatePipelineRun rid
                          [Set_status ''partial'', Set_finished_at t, Set_tokens_used totalTokens,
                           Set_error (''Delivery failed: '' @ msg)] w))))"
    unfolding runStages_def fin_def v4_def v3_def cr_def v2_def v1_def
    by (simp add: fo ro send Let_def case_prod_beta split: sum.splits)
  have ne: "fin \<noteq> []"
  proof
    assume "fin = []"
    then have "briefings (snd (runStages env rid ps pe v)) = briefings v"
      unfolding rest by (simp add: Date_now_def updatePipelineRun_frame f4)
    with gen show False by simp
  qed
  obtain btext used where bw: "briefing_written env = Inr (btext, used)"
  proof (cases "briefing_written env")
    case (Inl m)
    then have "briefings (snd (runStages env rid ps pe v)) = briefings v"
      unfolding rest using ne generateBriefing_failed[OF Inl, of fin ps pe v4]
      by (simp add: case_prod_beta run_failed_frame f4)
    with gen show ?thesis by simp
  next
    case (Inr p)
    with that show ?thesis by (cases p) simp
  qed
  define bid where "bid = next_id (map b_id (briefings v))"
  define nb where "nb = \<lparr>b_id = bid, b_generated_at = wall v4 (ticks v4),
         b_period_start = ps, b_period_end = pe, b_email_count = length fin,
         b_content = btext, b_model_used = None, b_tokens_used = used,
         delivered = 0, delivered_via = None, delivered_at = None\<rparr>"
  note gb = generateBriefing_written[OF bw, of fin ps pe v4, unfolded f4, folded bid_def nb_def]
  define v5 where "v5 = snd (generateBriefing (briefing_written env) fin ps pe v4)"
  have g5: "generateBriefing (briefing_written env) fin ps pe v4 =
              (Inr \<lparr>briefingId = bid, br_content = btext, br_tokensUsed = used\<rparr>, v5)"
    using gb by (simp add: v5_def prod_eq_iff)
  have b5: "briefings v5 = briefings v @ [nb]" using gb by (simp add: v5_def nb_def)
  have r5: "pipeline_runs v5 = rows @ [r1\<lparr>emails_fetched := fetched, emails_classified := total cr,
                                         emails_financial := financialCount cr\<rparr>]"
  proof -
    have idm: "\<And>f. map (\<lambda>r. if run_id r = rid then f r else r) rows = rows"
      using runs(3) by (intro map_idI) simp
    show ?thesis
      by (simp add: v5_def generateBriefing_runs v4_def v3_def v2_def updatePipelineRun_runs
            classifyEmails_frame f1 runs idm)
  qed
  define rf where "rf = r1\<lparr>emails_fetched := fetched, emails_classified := total cr,
         emails_financial := financialCount cr, tokens_used := refreshTokens + used,
         briefing_id := Some bid, status := ''partial'',
         finished_at := Some (wall v5 (ticks v5)),
         error := Some (''Delivery failed: '' @ msg)\<rparr>"
  have fresh_b: "\<And>f. map (\<lambda>x. if b_id x = bid then f x else x) (briefings v) = briefings v"
  proof (intro map_idI)
    fix f x assume "x \<in> set (briefings v)"
    then have "b_id x \<noteq> bid"
      unfolding bid_def using next_id_fresh[of "b_id x" "map b_id (briefings v)"] by auto
    then show "(if b_id x = bid then f x else x) = x" by simp
  qed
  have idm: "\<And>f. map (\<lambda>r. if run_id r = rid then f r else r) rows = rows"
    using runs(3) by (intro map_idI) simp
  have final: "fst (runStages env rid ps pe v) = None"
    "pipeline_runs (snd (runStages env rid ps pe v)) = rows @ [rf]"
    "briefings (snd (runStages env rid ps pe v)) = briefings v @ [nb\<lparr>delivered := - 1\<rparr>]"
    unfolding rest using ne
    by (simp_all add: g5 Let_def Date_now_def updatePipelineRun_runs updatePipelineRun_frame
          markBriefing_runs markBriefingFailed_frame r5 b5 idm fresh_b runs(2) rf_def nb_def)
  have crs: "cr = fst (classifyEmails (env_defaultRules env) (env_userRules env)
                           (getUnclassifiedEmailIds v1) v1)"
    unfolding cr_def
    by (rule classifyEmails_same_mail) (simp add: same_mail_def v2_def updatePipelineRun_frame)
  show ?thesis
    apply (rule conjI[OF final(1)])
    apply (rule exI[of _ rf], rule exI[of _ "nb\<lparr>delivered := - 1\<rparr>"], rule exI[of _ btext],
           rule exI[of _ used], rule exI[of _ refreshTokens], rule exI[of _ fetched])
    apply (simp only: final bw ro fo v1_def[symmetric] crs[symmetric])
    apply (simp add: rf_def nb_def)
    done
qed

text \<open>
  \<open>insertBriefing\<close> stores a digest with \<open>delivered = 0\<close>, \<open>markBriefingDelivered\<close> sets
  1, and \<open>markBriefingFailed\<close> sets \<open>- 1\<close>. After a failed delivery the digest of the
  example run carries \<open>- 1\<close>, the failed status, not the 0 it was stored with.
\<close>

theorem runPipeline_delivery_counterexample:
  "send_outcome ex_env = Some ''socket closed'' \<and>
   map status (pipeline_runs (snd (runPipeline ex_env manual ex_world))) = [''partial''] \<and>
   map delivered (briefings (snd (generateBriefing (briefing_written ex_env) [''m3''] 0 1 ex_world))) = [0] \<and>
   map delivered (briefings (snd (runPipeline ex_env manual ex_world))) = [- 1]"
  by code_simp

text \<open>
  C3, as the code has it. Take a run whose delivery fails with message \<open>msg\<close> and which
  stored a digest. Then \<open>runPipeline\<close> returns without throwing; fetching, the filter
  refresh and the writing of the digest had succeeded; the run added one row to
  \<open>pipeline_runs\<close> and one to \<open>briefings\<close>. The run row has status \<open>partial\<close>, the error
  \<open>Delivery failed: msg\<close>, the id of the digest, the tokens of the refresh and of the digest
  added up, the count of fetched emails, and as classification counts the totals that
  \<open>classifyEmails\<close> returns on the emails unclassified after the fetch. The digest row has
  the text written and \<open>delivered = - 1\<close>, with no channel and no delivery time.
\<close>

theorem runPipeline_delivery_failed:
  assumes "send_outcome env = Some msg"
    and "briefings (snd (runPipeline env trg w)) \<noteq> briefings w"
  shows "fst (runPipeline env trg w) = None \<and>
         (\<exists>r b btext used refreshTokens fetched.
            briefing_written env = Inr (btext, used) \<and>
            refresh_outcome env = Inr refreshTokens \<and>
            fetch_outcome env = Inr fetched \<and>
            pipeline_runs (snd (runPipeline env trg w)) = pipeline_runs w @ [r] \<and>
            briefings (snd (runPipeline env trg w)) = briefings w @ [b] \<and>
            status r = ''partial'' \<and> error r = Some (''Delivery failed: '' @ msg) \<and>
            briefing_id r = Some (b_id b) \<and> b_content b = btext \<and> b_tokens_used b = used \<and>
            delivered b = - 1 \<and> delivered_via b = None \<and> delivered_at b = None \<and>
            tokens_used r = refreshTokens + used \<and> emails_fetched r = fetched \<and>
            emails_classified r =
              total (fst (classifyEmails (env_defaultRules env) (env_userRules env)
                           (getUnclassifiedEmailIds (fold insertEmail (fetched_rows env) w))
                           (fold insertEmail (fetched_rows env) w))) \<and>
            emails_financial r =
              financialCount (fst (classifyEmails (env_defaultRules env) (env_userRules env)
                           (getUnclassifiedEmailIds (fold insertEmail (fetched_rows env) w))
                           (fold insertEmail (fetched_rows env) w))))"
proof -
  let ?rid = "next_id (map run_id (pipeline_runs w))"
  let ?rows = "pipeline_runs w"
  have fresh: "\<forall>x \<in> set ?rows. run_id x \<noteq> ?rid"
    using next_id_fresh[of _ "map run_id ?rows"] by auto
  from runPipeline_split[of w env trg] obtain v r0 ups P E where
    v: "pipeline_runs v = ?rows @ [r0]" "run_id r0 = ?rid" "emails v = emails w"
       "classifications v = classifications w" "briefings v = briefings w"
    and alt: "runPipeline env trg w = (None, updatePipelineRun ?rid ups v) \<or>
              runPipeline env trg w =
                runStages env ?rid P E (updatePipelineRun ?rid [Set_period_start P, Set_period_end E] v)"
    by blast
  define v' where "v' = updatePipelineRun ?rid [Set_period_start P, Set_period_end E] v"
  from alt assms(2) have st: "runPipeline env trg w = runStages env ?rid P E v'"
    by (auto simp: updatePipelineRun_frame v(5) v'_def)
  have rv: "pipeline_runs v' = ?rows @ [fold set_column [Set_period_start P, Set_period_end E] r0]"
    unfolding v'_def by (rule updatePipelineRun_last[OF v(1,2) fresh])
  have bv: "briefings v' = briefings w" by (simp add: v'_def updatePipelineRun_frame v(5))
  have sm: "same_mail (fold insertEmail (fetched_rows env) v') (fold insertEmail (fetched_rows env) w)"
  proof -
    have "emails v' = emails w" by (simp add: v'_def updatePipelineRun_frame v(3))
    then have "emails (fold insertEmail (fetched_rows env) v') =
               emails (fold insertEmail (fetched_rows env) w)"
      by (rule fold_insertEmail_emails)
    moreover have "classifications (fold insertEmail (fetched_rows env) v') =
                   classifications (fold insertEmail (fetched_rows env) w)"
      by (simp add: fold_insertEmail_frame v'_def updatePipelineRun_frame v(4))
    ultimately show ?thesis by (simp add: same_mail_def)
  qed
  have gen: "briefings (snd (runStages env ?rid P E v')) \<noteq> briefings v'"
    using assms(2) by (simp add: st bv)
  have rid0: "run_id (fold set_column [Set_period_start P, Set_period_end E] r0) = ?rid"
    by (simp add: v(2))
  note main = runStages_delivery_failed[OF rv rid0 fresh assms(1) gen]
  show ?thesis
    unfolding st classifyEmails_same_mail[OF sm, symmetric] bv[symmetric]
    by (rule main)
qed

theorem runPipeline_delivery_failed_witness:
  "send_outcome ex_env = Some ''socket closed'' \<and>
   briefings (snd (runPipeline ex_env manual ex_world)) \<noteq> briefings ex_world \<and>
   fst (runPipeline ex_env manual ex_world) = None \<and>
   (\<exists>r b. pipeline_runs (snd (runPipeline ex_env manual ex_world)) = [r] \<and>
          briefings (snd (runPipeline ex_env manual ex_world)) = [b] \<and>
          status r = ''partial'' \<and> error r = Some ''Delivery failed: socket closed'' \<and>
          briefing_id r = Some (b_id b) \<and> delivered b = - 1 \<and>
          b_content b = ''Briefing: 2 payments due'' \<and>
          tokens_used r = 42 \<and> emails_fetched r = 1)"
proof -
  have h1: "send_outcome ex_env = Some ''socket closed''" by (simp add: ex_env_def)
  have h2: "briefings (snd (runPipeline ex_env manual ex_world)) \<noteq> briefings ex_world"
    by code_simp
  have e: "briefings ex_world = []" "pipeline_runs ex_world = []" by (simp_all add: ex_world_def)
  note t = runPipeline_delivery_failed[OF h1 h2]
  from t have n: "fst (runPipeline ex_env manual ex_world) = None" by (rule conjunct1)
  from t obtain r b btext used refreshTokens fetched where
    f: "briefing_written ex_env = Inr (btext, used)"
       "refresh_outcome ex_env = Inr refreshTokens"
       "fetch_outcome ex_env = Inr fetched"
       "pipeline_runs (snd (runPipeline ex_env manual ex_world)) = pipeline_runs ex_world @ [r]"
       "briefings (snd (runPipeline ex_env manual ex_world)) = briefings ex_world @ [b]"
       "status r = ''partial''" "error r = Some (''Delivery failed: '' @ ''socket closed'')"
       "briefing_id r = Some (b_id b)" "b_content b = btext" "delivered b = - 1"
       "tokens_used r = refreshTokens + used" "emails_fetched r = fetched"
    by (elim conjE exE)
  from f(1,2,3) have o: "btext = ''Briefing: 2 payments due''" "used = 31" "refreshTokens = 11" "fetched = 1"
    by (simp_all add: ex_env_def)
  have ex: "\<exists>r b. pipeline_runs (snd (runPipeline ex_env manual ex_world)) = [r] \<and>
          briefings (snd (runPipeline ex_env manual ex_world)) = [b] \<and>
          status r = ''partial'' \<and> error r = Some ''Delivery failed: socket closed'' \<and>
          briefing_id r = Some (b_id b) \<and> delivered b = - 1 \<and>
          b_content b = ''Briefing: 2 payments due'' \<and>
          tokens_used r = 42 \<and> emails_fetched r = 1"
    apply (rule exI[of _ r], rule exI[of _ b])
    using f(4-12) unfolding o e by simp
  from h1 h2 n ex show ?thesis by (intro conjI)
qed

section \<open>Organic filter building and periodic refresh\<close>

lemma uniq_aux:
  "distinct acc \<Longrightarrow>
   distinct (fold (\<lambda>x acc. if x \<in> set acc then acc else acc @ [x]) xs acc) \<and>
   set (fold (\<lambda>x acc. if x \<in> set acc then acc else acc @ [x]) xs acc) = set xs \<union> set acc"
  by (induction xs arbitrary: acc) auto

lemma distinct_uniq: "distinct (uniq xs)"
  using uniq_aux[of "[]" xs] by (simp add: uniq_def)

lemma set_uniq: "set (uniq xs) = set xs"
  using uniq_aux[of "[]" xs] by (simp add: uniq_def)

lemma distinct_lower:
  assumes "distinct xs" "\<forall>s \<in> set xs. toLowerCase s = s"
  shows "distinct (map toLowerCase xs)"
proof -
  have "map toLowerCase xs = xs" using assms(2) by (intro map_idI) simp
  with assms(1) show ?thesis by simp
qed

lemma prefilter_subset:
  "set (fst (prefilter D xs acc)) \<subseteq> set (fst acc) \<union> set xs"
proof (induction xs arbitrary: acc)
  case Nil
  then show ?case by simp
next
  case (Cons x xs)
  obtain k u where acc: "acc = (k, u)" by (cases acc)
  show ?case
    unfolding acc using Cons.IH[of "(k, u)"] Cons.IH[of "(k @ [x], u)"] Cons.IH[of "(k, u @ [x])"]
    by auto
qed

lemma classifyBatches_lower:
  "\<forall>s \<in> set (snd acc). toLowerCase s = s \<Longrightarrow>
   \<forall>s \<in> set (snd (classifyBatches classify unknownSenders i acc)). toLowerCase s = s"
proof (induction classify unknownSenders i acc rule: classifyBatches.induct)
  case (1 classify unknownSenders i acc)
  show ?case
  proof (cases "i < length unknownSenders")
    case False
    with 1 show ?thesis by (simp add: classifyBatches.simps[of classify unknownSenders i])
  next
    case True
    let ?next = "(case classify (i div 100 + 1) (take 100 (drop i unknownSenders)) of
                 Call_failed \<Rightarrow> (fst acc, snd acc)
               | Parse_failed used \<Rightarrow> (fst acc + used, snd acc)
               | Parsed used financial \<Rightarrow>
                   (fst acc + used,
                    case financial of
                      None \<Rightarrow> snd acc
                    | Some fs \<Rightarrow> snd acc @ map toLowerCase fs))"
    have low: "\<forall>s \<in> set (snd ?next). toLowerCase s = s"
      using "1.prems" by (auto simp: toLowerCase_idem split: reply.splits option.splits)
    have "classifyBatches classify unknownSenders i acc =
          classifyBatches classify unknownSenders (i + 100) ?next"
      using True by (subst classifyBatches.simps) (simp add: Let_def)
    moreover have "\<forall>s \<in> set (snd (classifyBatches classify unknownSenders (i + 100) ?next)).
                     toLowerCase s = s"
      by (rule "1.IH"[OF True refl refl refl refl low])
    ultimately show ?thesis by simp
  qed
qed

lemma buildOrganicFilter_saved:
  assumes "snd (fst (buildOrganicFilter D classify extract w)) = Some ur"
  shows "u_senders_financial ur =
           uniq (fst (prefilter D (getAllUniqueSenders w) ([], [])) @
                 snd (classifyBatches classify
                        (snd (prefilter D (getAllUniqueSenders w) ([], []))) 0 (0, [])))"
proof (cases "length (getAllUniqueSenders w) = 0")
  case True
  with assms show ?thesis by (simp add: buildOrganicFilter_def Let_def)
next
  case False
  with assms show ?thesis
    by (auto simp: buildOrganicFilter_def Let_def case_prod_beta Date_now_def)
qed

lemma buildOrganicFilter_lower:
  assumes "\<forall>e \<in> set (emails w). toLowerCase (sender e) = sender e"
    and "snd (fst (buildOrganicFilter D classify extract w)) = Some ur"
  shows "distinct (u_senders_financial ur) \<and> (\<forall>s \<in> set (u_senders_financial ur). toLowerCase s = s)"
proof -
  let ?known = "fst (prefilter D (getAllUniqueSenders w) ([], []))"
  let ?llm = "snd (classifyBatches classify
                        (snd (prefilter D (getAllUniqueSenders w) ([], []))) 0 (0, []))"
  note f = buildOrganicFilter_saved[OF assms(2)]
  have "set ?known \<subseteq> set (getAllUniqueSenders w)"
    using prefilter_subset[of D "getAllUniqueSenders w" "([], [])"] by simp
  then have k: "\<forall>s \<in> set ?known. toLowerCase s = s"
    using assms(1) by (auto simp: getAllUniqueSenders_def set_uniq)
  have l: "\<forall>s \<in> set ?llm. toLowerCase s = s"
    by (rule classifyBatches_lower) simp
  from k l show ?thesis by (auto simp: f distinct_uniq set_uniq)
qed



lemma getAllUniqueSenders_ticks:
  "getAllUniqueSenders (snd (Date_now w)) = getAllUniqueSenders w"
  by (simp add: getAllUniqueSenders_def Date_now_def)

lemma refreshFilter_not_due:
  assumes "\<not> refresh_due days ur0 w"
  shows "snd (fst (refreshFilter D days classify extract reclassify (Some ur0) w)) = None"
  using assms
  by (simp add: refreshFilter_def Let_def case_prod_beta refresh_due_def Date_now_def)

lemma refreshFilter_no_new:
  assumes "refresh_due days ur0 w" "refresh_trulyNew D ur0 w = []"
  shows "snd (fst (refreshFilter D days classify extract reclassify (Some ur0) w)) =
           Some (ur0\<lparr>last_refreshed_at := wall w (Suc (ticks w))\<rparr>)"
  using assms
  by (simp add: refreshFilter_def Let_def case_prod_beta refresh_due_def refresh_trulyNew_def
        getAllUniqueSenders_ticks)
     (simp add: Date_now_def)

lemma refreshFilter_new:
  assumes "refresh_due days ur0 w" "refresh_trulyNew D ur0 w \<noteq> []"
  shows "\<exists>ur'. snd (fst (refreshFilter D days classify extract reclassify (Some ur0) w)) = Some ur' \<and>
           u_senders_financial ur' =
             uniq (u_senders_financial ur0 @
                   refresh_newFinancial (reclassify (refresh_trulyNew D ur0 w)))"
proof -
  have "map_option u_senders_financial
          (snd (fst (refreshFilter D days classify extract reclassify (Some ur0) w))) =
        Some (uniq (u_senders_financial ur0 @
                    refresh_newFinancial (reclassify (refresh_trulyNew D ur0 w))))"
    using assms
    by (simp add: refreshFilter_def Let_def case_prod_beta refresh_due_def refresh_trulyNew_def
          refresh_newFinancial_def getAllUniqueSenders_ticks
          split: reply.splits option.splits)
       (simp add: Date_now_def)
  then show ?thesis by (simp add: map_option_eq_Some) 
qed

lemma refresh_newFinancial_lower:
  "\<forall>s \<in> set (refresh_newFinancial answer). toLowerCase s = s"
  by (auto simp: refresh_newFinancial_def toLowerCase_idem split: reply.splits option.splits)


text \<open>
  The refresh removes repeated entries by comparing strings exactly. The user rules of the
  example list \<open>Billing@Shop.Example\<close>, with capitals; the store holds an email from
  \<open>billing@shop.example\<close>, which is therefore a new sender, and the model finds it
  financial. The list saved holds both spellings.
\<close>

theorem refreshFilter_dedup_counterexample:
  "map_option u_senders_financial
     (snd (fst (refreshFilter ex_rules 7 ex_classify ex_extract ex_reclassify
                  (Some ex_user_rules) ex_world_refresh))) =
     Some [''Billing@Shop.Example'', ''billing@shop.example''] \<and>
   toLowerCase ''Billing@Shop.Example'' = toLowerCase ''billing@shop.example''"
  by code_simp

text \<open>
  C9, as the code has it. When every sender address in the store is in lower case, as
  the connector writes them, the relevant-sender list that \<open>buildOrganicFilter\<close> saves
  has no two entries equal ignoring case. \<open>refreshFilter\<close> without user rules is
  \<open>buildOrganicFilter\<close>. With user rules: a refresh that is not due saves nothing; a due
  refresh that finds no new sender saves the loaded rules with a new refresh stamp, the
  list as it was loaded; a due refresh that finds new senders saves as list the loaded
  list followed by the relevant senders of the model's answer in lower case, each string
  kept where it occurs first, so that no two entries are identical. In every case, when
  the loaded list is in lower case and without a repeated entry, the saved list has no
  two entries equal ignoring case.
\<close>

theorem organic_filter_dedup:
  "((\<forall>e \<in> set (emails w). toLowerCase (sender e) = sender e) \<and>
    snd (fst (buildOrganicFilter D classify extract w)) = Some ur \<longrightarrow>
      distinct (map toLowerCase (u_senders_financial ur))) \<and>
   refreshFilter D days classify extract reclassify None w =
     buildOrganicFilter D classify extract w \<and>
   (\<not> refresh_due days ur0 w \<longrightarrow>
      snd (fst (refreshFilter D days classify extract reclassify (Some ur0) w)) = None) \<and>
   (refresh_due days ur0 w \<and> refresh_trulyNew D ur0 w = [] \<longrightarrow>
      snd (fst (refreshFilter D days classify extract reclassify (Some ur0) w)) =
        Some (ur0\<lparr>last_refreshed_at := wall w (Suc (ticks w))\<rparr>)) \<and>
   (refresh_due days ur0 w \<and> refresh_trulyNew D ur0 w \<noteq> [] \<longrightarrow>
      (\<exists>ur'. snd (fst (refreshFilter D days classify extract reclassify (Some ur0) w)) = Some ur' \<and>
             u_senders_financial ur' =
               uniq (u_senders_financial ur0 @
                     refresh_newFinancial (reclassify (refresh_trulyNew D ur0 w))) \<and>
             distinct (u_senders_financial ur') \<and>
             set (u_senders_financial ur') =
               set (u_senders_financial ur0) \<union>
               set (refresh_newFinancial (reclassify (refresh_trulyNew D ur0 w))))) \<and>
   (snd (fst (refreshFilter D days classify extract reclassify (Some ur0) w)) = Some ur1 \<and>
    (\<forall>s \<in> set (u_senders_financial ur0). toLowerCase s = s) \<and>
    distinct (u_senders_financial ur0) \<longrightarrow>
      distinct (map toLowerCase (u_senders_financial ur1)))"
proof (intro conjI impI)
  assume "(\<forall>e \<in> set (emails w). toLowerCase (sender e) = sender e) \<and>
    snd (fst (buildOrganicFilter D classify extract w)) = Some ur"
  then show "distinct (map toLowerCase (u_senders_financial ur))"
    using buildOrganicFilter_lower[of w D classify "extract" ur] by (simp add: distinct_lower)
next
  show "refreshFilter D days classify extract reclassify None w =
     buildOrganicFilter D classify extract w"
    by (simp add: refreshFilter_def)
next
  assume "\<not> refresh_due days ur0 w"
  then show "snd (fst (refreshFilter D days classify extract reclassify (Some ur0) w)) = None"
    by (rule refreshFilter_not_due)
next
  assume "refresh_due days ur0 w \<and> refresh_trulyNew D ur0 w = []"
  then show "snd (fst (refreshFilter D days classify extract reclassify (Some ur0) w)) =
        Some (ur0\<lparr>last_refreshed_at := wall w (Suc (ticks w))\<rparr>)"
    by (simp add: refreshFilter_no_new)
next
  assume a: "refresh_due days ur0 w \<and> refresh_trulyNew D ur0 w \<noteq> []"
  from a refreshFilter_new[of days ur0 w D classify "extract" reclassify]
  obtain ur' where u:
    "snd (fst (refreshFilter D days classify extract reclassify (Some ur0) w)) = Some ur'"
    "u_senders_financial ur' =
       uniq (u_senders_financial ur0 @
             refresh_newFinancial (reclassify (refresh_trulyNew D ur0 w)))"
    by blast
  show "\<exists>ur'. snd (fst (refreshFilter D days classify extract reclassify (Some ur0) w)) = Some ur' \<and>
             u_senders_financial ur' =
               uniq (u_senders_financial ur0 @
                     refresh_newFinancial (reclassify (refresh_trulyNew D ur0 w))) \<and>
             distinct (u_senders_financial ur') \<and>
             set (u_senders_financial ur') =
               set (u_senders_financial ur0) \<union>
               set (refresh_newFinancial (reclassify (refresh_trulyNew D ur0 w)))"
    apply (rule exI[of _ ur'])
    apply (simp only: u)
    apply (simp add: distinct_uniq set_uniq)
    done
next
  assume b: "snd (fst (refreshFilter D days classify extract reclassify (Some ur0) w)) = Some ur1 \<and>
    (\<forall>s \<in> set (u_senders_financial ur0). toLowerCase s = s) \<and>
    distinct (u_senders_financial ur0)"
  have due: "refresh_due days ur0 w"
    using b refreshFilter_not_due[of days ur0 w D classify "extract" reclassify] by auto
  show "distinct (map toLowerCase (u_senders_financial ur1))"
  proof (cases "refresh_trulyNew D ur0 w = []")
    case True
    from refreshFilter_no_new[OF due True, of classify "extract" reclassify] b
    have "u_senders_financial ur1 = u_senders_financial ur0" by auto
    with b show ?thesis by (simp add: distinct_lower)
  next
    case False
    from refreshFilter_new[OF due False, of classify "extract" reclassify] b
    have n: "u_senders_financial ur1 =
       uniq (u_senders_financial ur0 @
             refresh_newFinancial (reclassify (refresh_trulyNew D ur0 w)))" by auto
    have "\<forall>s \<in> set (u_senders_financial ur1). toLowerCase s = s"
      using b refresh_newFinancial_lower by (auto simp: n set_uniq)
    moreover have "distinct (u_senders_financial ur1)" by (simp add: n distinct_uniq)
    ultimately show ?thesis by (simp add: distinct_lower)
  qed
qed


theorem organic_filter_dedup_witness:
  "list_all (\<lambda>e. toLowerCase (sender e) = sender e) (emails ex_world_refresh) \<and>
   snd (fst (buildOrganicFilter ex_rules ex_classify ex_extract ex_world_refresh)) \<noteq> None \<and>
   distinct (map toLowerCase (u_senders_financial
     (the (snd (fst (buildOrganicFilter ex_rules ex_classify ex_extract ex_world_refresh)))))) \<and>
   refresh_due 7 ex_user_rules_lower ex_world_refresh \<and>
   refresh_trulyNew ex_rules ex_user_rules_lower ex_world_refresh = [''news@shop.example''] \<and>
   u_senders_financial ex_user_rules_lower = [''billing@shop.example''] \<and>
   map_option u_senders_financial
     (snd (fst (refreshFilter ex_rules 7 ex_classify ex_extract ex_reclassify_twice
                  (Some ex_user_rules_lower) ex_world_refresh))) =
     Some [''billing@shop.example'', ''news@shop.example''] \<and>
   distinct (map toLowerCase [''billing@shop.example'', ''news@shop.example''])"
proof -
  let ?b = "snd (fst (buildOrganicFilter ex_rules ex_classify ex_extract ex_world_refresh))"
  let ?r = "snd (fst (refreshFilter ex_rules 7 ex_classify ex_extract ex_reclassify_twice
               (Some ex_user_rules_lower) ex_world_refresh))"
  have l: "list_all (\<lambda>e. toLowerCase (sender e) = sender e) (emails ex_world_refresh)"
    by code_simp
  then have h1: "\<forall>e \<in> set (emails ex_world_refresh). toLowerCase (sender e) = sender e"
    by (simp only: list_all_iff)
  have h2: "?b \<noteq> None" by code_simp
  then have h2': "?b = Some (the ?b)" by simp
  have due: "refresh_due 7 ex_user_rules_lower ex_world_refresh"
    by (simp add: refresh_due_def ex_user_rules_lower_def ex_user_rules_def ex_world_refresh_def
          ex_world_def)
  have tn: "refresh_trulyNew ex_rules ex_user_rules_lower ex_world_refresh = [''news@shop.example'']"
    by code_simp
  have f0: "u_senders_financial ex_user_rules_lower = [''billing@shop.example'']"
    by (simp add: ex_user_rules_lower_def)
  have l3: "list_all (\<lambda>s. toLowerCase s = s) (u_senders_financial ex_user_rules_lower)"
    by code_simp
  then have h3: "\<forall>s \<in> set (u_senders_financial ex_user_rules_lower). toLowerCase s = s"
    by (simp only: list_all_iff)
  have h4: "distinct (u_senders_financial ex_user_rules_lower)" by (simp add: f0)
  have ev: "uniq (u_senders_financial ex_user_rules_lower @
                  refresh_newFinancial (ex_reclassify_twice [''news@shop.example''])) =
            [''billing@shop.example'', ''news@shop.example'']"
    by code_simp
  note t = organic_filter_dedup[of ex_world_refresh ex_rules ex_classify ex_extract "the ?b" 7
      ex_reclassify_twice ex_user_rules_lower "the ?r"]
  from t have t1: "(\<forall>e \<in> set (emails ex_world_refresh). toLowerCase (sender e) = sender e) \<and>
       ?b = Some (the ?b) \<longrightarrow> distinct (map toLowerCase (u_senders_financial (the ?b)))"
    by (rule conjunct1)
  from h1 h2' have "(\<forall>e \<in> set (emails ex_world_refresh). toLowerCase (sender e) = sender e) \<and>
       ?b = Some (the ?b)" by (rule conjI)
  with t1 have c1: "distinct (map toLowerCase (u_senders_financial (the ?b)))" by (rule mp)
  have ne: "refresh_trulyNew ex_rules ex_user_rules_lower ex_world_refresh \<noteq> []"
    by (simp add: tn)
  from t have t5: "refresh_due 7 ex_user_rules_lower ex_world_refresh \<and>
      refresh_trulyNew ex_rules ex_user_rules_lower ex_world_refresh \<noteq> [] \<longrightarrow>
      (\<exists>ur'. ?r = Some ur' \<and>
             u_senders_financial ur' =
               uniq (u_senders_financial ex_user_rules_lower @
                     refresh_newFinancial
                       (ex_reclassify_twice (refresh_trulyNew ex_rules ex_user_rules_lower ex_world_refresh))) \<and>
             distinct (u_senders_financial ur') \<and>
             set (u_senders_financial ur') =
               set (u_senders_financial ex_user_rules_lower) \<union>
               set (refresh_newFinancial
                     (ex_reclassify_twice (refresh_trulyNew ex_rules ex_user_rules_lower ex_world_refresh))))"
    by (elim conjE)
  from due ne have "refresh_due 7 ex_user_rules_lower ex_world_refresh \<and>
      refresh_trulyNew ex_rules ex_user_rules_lower ex_world_refresh \<noteq> []" by (rule conjI)
  with t5 have "\<exists>ur'. ?r = Some ur' \<and>
             u_senders_financial ur' =
               uniq (u_senders_financial ex_user_rules_lower @
                     refresh_newFinancial
                       (ex_reclassify_twice (refresh_trulyNew ex_rules ex_user_rules_lower ex_world_refresh))) \<and>
             distinct (u_senders_financial ur') \<and>
             set (u_senders_financial ur') =
               set (u_senders_financial ex_user_rules_lower) \<union>
               set (refresh_newFinancial
                     (ex_reclassify_twice (refresh_trulyNew ex_rules ex_user_rules_lower ex_world_refresh)))"
    by (rule mp)
  then obtain ur' where u: "?r = Some ur'"
    "u_senders_financial ur' =
               uniq (u_senders_financial ex_user_rules_lower @
                     refresh_newFinancial
                       (ex_reclassify_twice (refresh_trulyNew ex_rules ex_user_rules_lower ex_world_refresh)))"
    by (elim exE conjE)
  have saved: "map_option u_senders_financial ?r = Some [''billing@shop.example'', ''news@shop.example'']"
    unfolding u(1) using u(2) unfolding tn ev by simp
  from t have t6: "?r = Some (the ?r) \<and>
    (\<forall>s \<in> set (u_senders_financial ex_user_rules_lower). toLowerCase s = s) \<and>
    distinct (u_senders_financial ex_user_rules_lower) \<longrightarrow>
      distinct (map toLowerCase (u_senders_financial (the ?r)))"
    by (elim conjE)
  have r': "?r = Some (the ?r)" by (simp add: u(1))
  from r' h3 h4 have "?r = Some (the ?r) \<and>
    (\<forall>s \<in> set (u_senders_financial ex_user_rules_lower). toLowerCase s = s) \<and>
    distinct (u_senders_financial ex_user_rules_lower)" by (intro conjI)
  with t6 have "distinct (map toLowerCase (u_senders_financial (the ?r)))" by (rule mp)
  then have c2: "distinct (map toLowerCase [''billing@shop.example'', ''news@shop.example''])"
    using u(2) unfolding u(1) tn ev by simp
  from l h2 c1 due tn f0 saved c2 show ?thesis by (intro conjI)
qed

end
